theory Spec2Isabelle
  imports Main "HOL-Library.Multiset"
begin

section \<open>Data model of kdtree.h\<close>

text \<open>
  The classes of kdtree.h are templated on the coordinate type \<open>T\<close>. The model keeps
  the values of \<open>T\<close> in a type variable of an ordered ring (\<open>int\<close>, \<open>rat\<close> and \<open>real\<close> are
  instances); the arithmetic that the code does on them is a parameter (see \<open>arith\<close>
  below). The \<open>int\<close> fields for indices and axes are mathematical integers.

  Behaviour that C++ leaves undefined (reading a vector out of range, dereferencing an
  iterator that points at no element, an integer remainder by zero) and a failed
  \<open>assert\<close> are results of their own: a \<open>fault\<close>. They are not C++ exceptions, so no
  \<open>catch\<close> clause of the source sees them.
\<close>

datatype fault = InvalidDeref | DivByZero | OutOfRange | AssertFailed

record 'a IndexedPoint =
  index :: int
  point :: "'a list"

text \<open>The default constructor \<open>IndexedPoint()\<close>: index \<open>-1\<close> and an empty vector.\<close>

definition IndexedPoint_default :: "'a IndexedPoint" where
  "IndexedPoint_default = \<lparr>index = -1, point = []\<rparr>"

datatype 'a KDNode =
  KDNode (axis: int) (location: "'a IndexedPoint")
         (leftNode: "'a KDNode option") (rightNode: "'a KDNode option")

record 'a KDTree =
  rootNode :: "'a KDNode option"

text \<open>The constructor \<open>KDTree()\<close>: no root.\<close>

definition KDTree_empty :: "'a KDTree" where
  "KDTree_empty = \<lparr>rootNode = None\<rparr>"

section \<open>Helper functions\<close>

text \<open>\<open>IndexedPointCompare(in_axis)(i, j)\<close>: compares the \<open>in_axis\<close>'th coordinates.\<close>

definition IndexedPointCompare ::
  "int \<Rightarrow> ('a::linorder) IndexedPoint \<Rightarrow> 'a IndexedPoint \<Rightarrow> bool" where
  "IndexedPointCompare in_axis i j = (point i ! nat in_axis < point j ! nat in_axis)"

text \<open>
  The arithmetic of the machine. A coordinate has the type \<open>T\<close>; \<open>squaredDistance\<close> and
  the search also compute in \<open>double\<close>. The carrier \<open>'a\<close> holds the values of both types,
  and the operations of the machine on them are the fields of a record that every
  function computing with coordinates takes as a parameter: subtraction,
  multiplication and addition in \<open>T\<close>, addition and multiplication in \<open>double\<close>, the
  conversion from \<open>T\<close> to \<open>double\<close> and the narrowing from \<open>double\<close> to \<open>T\<close>. Nothing is
  built into them: where the machine rounds, or where C++ leaves the result undefined
  (a signed overflow, a conversion out of range), the field is what the machine yields.
  The comparisons \<open><\<close> and \<open><=\<close> compare the values.
\<close>

record 'a arith =
  subT :: "'a \<Rightarrow> 'a \<Rightarrow> 'a"
  mulT :: "'a \<Rightarrow> 'a \<Rightarrow> 'a"
  addT :: "'a \<Rightarrow> 'a \<Rightarrow> 'a"
  addD :: "'a \<Rightarrow> 'a \<Rightarrow> 'a"
  mulD :: "'a \<Rightarrow> 'a \<Rightarrow> 'a"
  toD :: "'a \<Rightarrow> 'a"
  toT :: "'a \<Rightarrow> 'a"


text \<open>
  One such machine, for \<open>T = int\<close> of 32 bits: the operations in \<open>int\<close> wrap around, a
  \<open>double\<close> outside the range of \<open>int\<close> narrows to the least \<open>int\<close> (as the conversion
  instruction of x86-64 has it), and the operations in \<open>double\<close> are those of the
  integers, which they are on integers below \<open>2^53\<close>.
\<close>

definition wrap32 :: "int \<Rightarrow> int" where
  "wrap32 x = (x + 2147483648) mod 4294967296 - 2147483648"

definition int32_arith :: "int arith" where
  "int32_arith =
     \<lparr>subT = (\<lambda>x y. wrap32 (x - y)),
      mulT = (\<lambda>x y. wrap32 (x * y)),
      addT = (\<lambda>x y. wrap32 (x + y)),
      addD = (\<lambda>x y. x + y),
      mulD = (\<lambda>x y. x * y),
      toD = (\<lambda>x. x),
      toT = (\<lambda>x. if - 2147483648 \<le> x \<and> x \<le> 2147483647 then x else - 2147483648)\<rparr>"

text \<open>
  \<open>squaredDistance\<close>: the assertion on the sizes, then the loop
  \<open>dist += (a[ii]-b[ii])*(a[ii]-b[ii])\<close> for \<open>ii\<close> from 0 below \<open>a.size()\<close>, from
  \<open>dist = 0.0\<close>: the difference and the product are computed in \<open>T\<close>, the product is
  converted and added in \<open>double\<close>. \<open>sqdist_loop ar n\<close> is that loop with the bound \<open>n\<close>.
\<close>

definition sqdist_loop :: "('a::linordered_idom) arith \<Rightarrow> nat \<Rightarrow> 'a list \<Rightarrow> 'a list \<Rightarrow> 'a" where
  "sqdist_loop ar n a b =
     foldl (\<lambda>dist ii.
              addD ar dist
                (toD ar (mulT ar (subT ar (a ! ii) (b ! ii)) (subT ar (a ! ii) (b ! ii)))))
       0 [0..<n]"

definition squaredDistance ::
  "('a::linordered_idom) arith \<Rightarrow> 'a list \<Rightarrow> 'a list \<Rightarrow> fault + 'a" where
  "squaredDistance ar a b =
     (if length a \<noteq> length b then Inl AssertFailed else Inr (sqdist_loop ar (length a) a b))"


section \<open>Building the tree\<close>

text \<open>
  \<open>std::nth_element\<close> is library code. The model takes it as the parameter \<open>sel\<close>:
  \<open>sel ax n xs\<close> is the content of the range after
  \<open>nth_element(start, start + n, end, IndexedPointCompare<T>(ax))\<close> on a range whose
  content was \<open>xs\<close>. What the C++ standard promises of it is \<open>nth_element_spec\<close>: the
  range is permuted, no element from position \<open>n\<close> on compares less than one before
  position \<open>n\<close>, and the element at position \<open>n\<close> is the one a full sort would put
  there, so nothing from position \<open>n\<close> on compares less than it.
\<close>

type_synonym 'a nth_element = "int \<Rightarrow> nat \<Rightarrow> 'a IndexedPoint list \<Rightarrow> 'a IndexedPoint list"

definition nth_element_spec :: "('a::linorder) nth_element \<Rightarrow> bool" where
  "nth_element_spec sel =
     (\<forall>ax n xs. n < length xs \<longrightarrow>
        mset (sel ax n xs) = mset xs \<and>
        (\<forall>i j. i < n \<and> n \<le> j \<and> j < length xs \<longrightarrow>
           \<not> IndexedPointCompare ax (sel ax n xs ! j) (sel ax n xs ! i)) \<and>
        (\<forall>j. n \<le> j \<and> j < length xs \<longrightarrow>
           \<not> IndexedPointCompare ax (sel ax n xs ! j) (sel ax n xs ! n)))"

text \<open>One implementation that meets it: a stable sort of the range by the coordinate.\<close>

definition nth_element_sort :: "('a::linorder) nth_element" where
  "nth_element_sort ax n xs = sort_key (\<lambda>p. point p ! nat ax) xs"

text \<open>
  \<open>KDNode::build(data, start, end, axis)\<close>. The iterators are positions in the
  working vector \<open>data\<close>, which \<open>nth_element\<close> rearranges in place; the model returns the
  node together with the vector as the call leaves it.
  \<^item> \<open>start->point.size()\<close> dereferences \<open>start\<close>: undefined when \<open>start\<close> is the end of
    the vector; the remainder is undefined when that size is 0.
  \<^item> \<open>dataSize = end - start\<close>; every call has \<open>start \<le> end\<close>, and a negative difference
    would take the same branch as the truncated one (\<open>dataSize < 2\<close>).
  \<^item> the comparator reads coordinate \<open>_axis\<close> of the points of the range without a check.
\<close>

function build ::
  "('a::linorder) nth_element \<Rightarrow> 'a IndexedPoint list \<Rightarrow> nat \<Rightarrow> nat \<Rightarrow> int \<Rightarrow>
     fault + ('a KDNode \<times> 'a IndexedPoint list)" where
  "build sel data start fin parentAxis =
     (if length data \<le> start then Inl InvalidDeref
      else if length (point (data ! start)) = 0 then Inl DivByZero
      else
        let ax = (parentAxis + 1) mod int (length (point (data ! start)));
            dataSize = fin - start
        in
        if dataSize < 2 then Inr (KDNode ax (data ! start) None None, data)
        else
          let median = start + dataSize div 2;
              range = take dataSize (drop start data)
          in
          if \<exists>p \<in> set range. int (length (point p)) \<le> ax then Inl OutOfRange
          else
            let data1 = take start data @ sel ax (dataSize div 2) range @ drop fin data
            in
            if length data1 \<le> median then Inl InvalidDeref
            else
              let loc = data1 ! median
              in
              case (if start \<noteq> median
                    then (case build sel data1 start median ax of
                            Inl f \<Rightarrow> Inl f
                          | Inr (l, d) \<Rightarrow> Inr (Some l, d))
                    else Inr (None, data1)) of
                Inl f \<Rightarrow> Inl f
              | Inr (l, data2) \<Rightarrow>
                  (case (if median \<noteq> fin
                         then (case build sel data2 median fin ax of
                                 Inl f \<Rightarrow> Inl f
                               | Inr (r, d) \<Rightarrow> Inr (Some r, d))
                         else Inr (None, data2)) of
                     Inl f \<Rightarrow> Inl f
                   | Inr (r, data3) \<Rightarrow> Inr (KDNode ax loc l r, data3)))"
  by pat_completeness auto
termination
  apply (relation "measure (\<lambda>(sel, data, start, fin, parentAxis). fin - start)")
  subgoal by simp
  subgoal by (clarsimp, arith?)
  subgoal by (clarsimp, arith?)
  done

text \<open>
  \<open>KDTree::build(data)\<close>: the copy with indices (\<open>indexed_copy\<close>, the loop of
  \<open>push_back(IndexedPoint<T>(ii, data[ii]))\<close>), a fresh root, the recursive build
  over the whole copy with parent axis \<open>-1\<close>, then \<open>success = true\<close>. The \<open>catch\<close> clause
  is reached by a C++ exception only; none of the modelled operations throws one, so
  the model has a fault or the flag \<open>True\<close>.
\<close>

definition indexed_copy :: "'a list list \<Rightarrow> 'a IndexedPoint list" where
  "indexed_copy data = map (\<lambda>ii. \<lparr>index = int ii, point = data ! ii\<rparr>) [0..<length data]"

definition KDTree_build ::
  "('a::linorder) nth_element \<Rightarrow> 'a KDTree \<Rightarrow> 'a list list \<Rightarrow> fault + (bool \<times> 'a KDTree)" where
  "KDTree_build sel tree data =
     (let dataCopy = indexed_copy data
      in case build sel dataCopy 0 (length dataCopy) (- 1) of
           Inl f \<Rightarrow> Inl f
         | Inr (root, dataCopy') \<Rightarrow> Inr (True, tree\<lparr>rootNode := Some root\<rparr>))"

section \<open>Shape of a tree\<close>

text \<open>The locations stored in a subtree, node first, then left, then right.\<close>

fun locations :: "'a KDNode \<Rightarrow> 'a IndexedPoint list" where
  "locations (KDNode ax loc l r) =
     loc # (case l of None \<Rightarrow> [] | Some ln \<Rightarrow> locations ln)
         @ (case r of None \<Rightarrow> [] | Some rn \<Rightarrow> locations rn)"

text \<open>Every node is a leaf or has both children.\<close>

fun both_or_none :: "'a KDNode \<Rightarrow> bool" where
  "both_or_none (KDNode ax loc l r) =
     (case (l, r) of
        (None, None) \<Rightarrow> True
      | (Some ln, Some rn) \<Rightarrow> both_or_none ln \<and> both_or_none rn
      | _ \<Rightarrow> False)"

text \<open>
  Every node's axis is (its parent's axis + 1) mod \<open>D\<close>, starting from the parent axis
  given for the root of the subtree.
\<close>

fun axes_cycle :: "nat \<Rightarrow> int \<Rightarrow> 'a KDNode \<Rightarrow> bool" where
  "axes_cycle D parentAxis (KDNode ax loc l r) =
     (ax = (parentAxis + 1) mod int D
      \<and> (case l of None \<Rightarrow> True | Some ln \<Rightarrow> axes_cycle D ax ln)
      \<and> (case r of None \<Rightarrow> True | Some rn \<Rightarrow> axes_cycle D ax rn))"

text \<open>
  The partition invariant of a tree over points of dimension \<open>D\<close>: every axis is below
  \<open>D\<close>, every location has \<open>D\<close> coordinates, nothing in a left subtree is above its node on
  the node's axis, nothing in a right subtree is below it.
\<close>

fun kd_inv :: "nat \<Rightarrow> ('a::linorder) KDNode \<Rightarrow> bool" where
  "kd_inv D (KDNode ax loc l r) =
     (0 \<le> ax \<and> ax < int D \<and> length (point loc) = D
      \<and> (case l of
            None \<Rightarrow> True
          | Some ln \<Rightarrow>
              kd_inv D ln \<and> list_all (\<lambda>p. point p ! nat ax \<le> point loc ! nat ax) (locations ln))
      \<and> (case r of
            None \<Rightarrow> True
          | Some rn \<Rightarrow>
              kd_inv D rn \<and> list_all (\<lambda>p. point loc ! nat ax \<le> point p ! nat ax) (locations rn)))"

section \<open>Nearest-neighbour query\<close>

text \<open>
  \<open>KDNode::nearestNeighbor(queryPoint, best, bestSqrDistance)\<close>; the two reference
  parameters are passed in and returned. \<open>queryPoint[_axis]\<close> and
  \<open>_location.point[_axis]\<close> are read without a check (both vectors have the same size
  after the assertion): in the first condition only when the left child exists
  (\<open>&&\<close> evaluates its right operand only then), for \<open>hypersphereDist\<close> always.
  \<open>T distance = squaredDistance<T>(...)\<close> narrows the \<open>double\<close> to \<open>T\<close>; the comparison
  with \<open>bestSqrDistance\<close> and the assignment to it convert \<open>distance\<close> back.
  \<open>hypersphereDist\<close> is a difference in \<open>T\<close>, converted; its square is a product in
  \<open>double\<close>.
\<close>

fun nearestNeighbor ::
  "('a::linordered_idom) arith \<Rightarrow> 'a KDNode \<Rightarrow> 'a list \<Rightarrow> 'a IndexedPoint \<times> 'a \<Rightarrow>
     fault + ('a IndexedPoint \<times> 'a)" where
  "nearestNeighbor ar (KDNode ax loc l r) queryPoint (best, bestSqrDistance) =
     (if length (point loc) \<noteq> length queryPoint then Inl AssertFailed
      else
        case squaredDistance ar (point loc) queryPoint of
          Inl f \<Rightarrow> Inl f
        | Inr dist \<Rightarrow>
            let distance = toT ar dist;
                (best1, bestSqrDistance1) =
                  (if toD ar distance < bestSqrDistance then (loc, toD ar distance)
                   else (best, bestSqrDistance));
                inRange = (0 \<le> ax \<and> ax < int (length queryPoint));
                queryLeft = (queryPoint ! nat ax \<le> point loc ! nat ax)
            in
            (case (case l of
                    Some ln \<Rightarrow>
                      if \<not> inRange then Inl OutOfRange
                      else if queryLeft
                      then nearestNeighbor ar ln queryPoint (best1, bestSqrDistance1)
                      else (case r of
                              Some rn \<Rightarrow> nearestNeighbor ar rn queryPoint (best1, bestSqrDistance1)
                            | None \<Rightarrow> Inr (best1, bestSqrDistance1))
                  | None \<Rightarrow>
                      (case r of
                         Some rn \<Rightarrow> nearestNeighbor ar rn queryPoint (best1, bestSqrDistance1)
                       | None \<Rightarrow> Inr (best1, bestSqrDistance1))) of
              Inl f \<Rightarrow> Inl f
            | Inr (best2, bestSqrDistance2) \<Rightarrow>
                if \<not> inRange then Inl OutOfRange
                else
                  let hypersphereDist = toD ar (subT ar (queryPoint ! nat ax) (point loc ! nat ax))
                  in
                  if mulD ar hypersphereDist hypersphereDist \<le> bestSqrDistance2
                  then (case r of
                          Some rn \<Rightarrow>
                            if queryLeft
                            then nearestNeighbor ar rn queryPoint (best2, bestSqrDistance2)
                            else (case l of
                                    Some ln \<Rightarrow>
                                      nearestNeighbor ar ln queryPoint (best2, bestSqrDistance2)
                                  | None \<Rightarrow> Inr (best2, bestSqrDistance2))
                        | None \<Rightarrow>
                            (case l of
                               Some ln \<Rightarrow> nearestNeighbor ar ln queryPoint (best2, bestSqrDistance2)
                             | None \<Rightarrow> Inr (best2, bestSqrDistance2)))
                  else Inr (best2, bestSqrDistance2)))"

text \<open>
  \<open>KDTree::nearestNeighbor(queryPoint)\<close>. The method is not \<open>const\<close>, so the model
  returns the tree with the answer. \<open>tmax\<close> stands for
  \<open>std::numeric_limits<T>::max()\<close>, which, converted to \<open>double\<close>, is the initial
  \<open>dist\<close>. Without a root the answer is \<open>IndexedPoint<T>()\<close>; otherwise \<open>best\<close> starts as
  the origin with index \<open>-1\<close>.
\<close>

definition KDTree_nearestNeighbor ::
  "('a::linordered_idom) arith \<Rightarrow> 'a \<Rightarrow> 'a KDTree \<Rightarrow> 'a list \<Rightarrow>
     fault + ('a IndexedPoint \<times> 'a KDTree)" where
  "KDTree_nearestNeighbor ar tmax tree queryPoint =
     (case rootNode tree of
        None \<Rightarrow> Inr (IndexedPoint_default, tree)
      | Some root \<Rightarrow>
          let best = \<lparr>index = -1, point = replicate (length queryPoint) 0\<rparr>
          in (case nearestNeighbor ar root queryPoint (best, toD ar tmax) of
                Inl f \<Rightarrow> Inl f
              | Inr (best', dist') \<Rightarrow> Inr (best', tree)))"





section \<open>Serialization and deserialization\<close>

text \<open>
  A stream is the string of characters written so far, or still to be read. The stream
  operations of the C++ library that the codec uses on \<open>int\<close> and on lines are modelled
  here from their standard behaviour; those on \<open>T\<close> are parameters of the codec:
  \<open>showT x\<close> is what \<open>out << x\<close> writes at the precision the tree serializer sets, and
  \<open>readT s\<close> is \<open>stream >> elem\<close> on the content \<open>s\<close>: the element and the unread rest,
  or \<open>None\<close> when the extraction fails.
\<close>

definition newline :: char where
  "newline = CHR 0x0A"

definition endl :: string where
  "endl = [newline]"

definition digit_char :: "nat \<Rightarrow> char" where
  "digit_char d = char_of (48 + d)"

fun show_nat :: "nat \<Rightarrow> string" where
  "show_nat n = (if n < 10 then [digit_char n] else show_nat (n div 10) @ [digit_char (n mod 10)])"

text \<open>\<open>out << i\<close> for an \<open>int\<close>: decimal digits, with a minus sign when negative.\<close>

definition show_int :: "int \<Rightarrow> string" where
  "show_int i = (if i < 0 then CHR ''-'' # show_nat (nat (- i)) else show_nat (nat i))"

definition isspace :: "char \<Rightarrow> bool" where
  "isspace c = (c \<in> set [CHR '' '', CHR 0x09, CHR 0x0A, CHR 0x0B, CHR 0x0C, CHR 0x0D])"

definition isdigit :: "char \<Rightarrow> bool" where
  "isdigit c = (48 \<le> (of_char c :: nat) \<and> (of_char c :: nat) \<le> 57)"

definition digit_val :: "char \<Rightarrow> nat" where
  "digit_val c = of_char c - 48"

definition read_digits :: "string \<Rightarrow> nat" where
  "read_digits ds = foldl (\<lambda>v c. 10 * v + digit_val c) 0 ds"

text \<open>
  Extraction of a decimal integer of any size: leading whitespace is skipped, then an
  optional sign and the longest run of digits are consumed; no digit is a failure.
\<close>

definition read_integer :: "string \<Rightarrow> (int \<times> string) option" where
  "read_integer s =
     (let s1 = dropWhile isspace s;
          negative = (s1 \<noteq> [] \<and> hd s1 = CHR ''-'');
          s2 = (if s1 \<noteq> [] \<and> (hd s1 = CHR ''-'' \<or> hd s1 = CHR ''+'') then tl s1 else s1);
          digits = takeWhile isdigit s2
      in if digits = [] then None
         else Some (if negative then - int (read_digits digits) else int (read_digits digits),
                    dropWhile isdigit s2))"

definition INT_MIN :: int where
  "INT_MIN = - 2147483648"

definition INT_MAX :: int where
  "INT_MAX = 2147483647"

text \<open>\<open>stream >> val\<close> for a 32-bit \<open>int\<close>: a value out of range is a failure too.\<close>

definition read_int :: "string \<Rightarrow> (int \<times> string) option" where
  "read_int s =
     (case read_integer s of
        None \<Rightarrow> None
      | Some (val, rest) \<Rightarrow> if val < INT_MIN \<or> INT_MAX < val then None else Some (val, rest))"

text \<open>
  \<open>getline(in, line)\<close>: the characters before the first newline, which is consumed;
  at the end of the stream the line is empty.
\<close>

definition getline :: "string \<Rightarrow> string \<times> string" where
  "getline inp = (takeWhile (\<lambda>c. c \<noteq> newline) inp, drop 1 (dropWhile (\<lambda>c. c \<noteq> newline) inp))"

definition NULLPTR_MARKER :: int where
  "NULLPTR_MARKER = - 1"

text \<open>\<open>intFromStream\<close>: one line, read as an \<open>int\<close>; \<open>-1\<close> when that fails.\<close>

definition intFromStream :: "string \<Rightarrow> int \<times> string" where
  "intFromStream inp =
     (let (line, rest) = getline inp
      in case read_int line of None \<Rightarrow> (- 1, rest) | Some (val, unread) \<Rightarrow> (val, rest))"

text \<open>\<open>operator<<\<close> on a node: the characters it appends to the stream.\<close>

fun KDNode_serialize :: "('a \<Rightarrow> string) \<Rightarrow> 'a KDNode \<Rightarrow> string" where
  "KDNode_serialize showT (KDNode ax loc l r) =
     show_int ax @ endl
     @ show_int (index loc) @ endl
     @ concat (map (\<lambda>x. showT x @ '' '') (point loc)) @ endl
     @ (case l of Some ln \<Rightarrow> KDNode_serialize showT ln | None \<Rightarrow> show_int NULLPTR_MARKER @ endl)
     @ (case r of Some rn \<Rightarrow> KDNode_serialize showT rn | None \<Rightarrow> show_int NULLPTR_MARKER @ endl)"

text \<open>What a node's encoding holds after its axis line.\<close>

definition KDNode_serialize_body :: "('a \<Rightarrow> string) \<Rightarrow> 'a KDNode \<Rightarrow> string" where
  "KDNode_serialize_body showT node =
     show_int (index (location node)) @ endl
     @ concat (map (\<lambda>x. showT x @ '' '') (point (location node))) @ endl
     @ (case leftNode node of
          Some ln \<Rightarrow> KDNode_serialize showT ln | None \<Rightarrow> show_int NULLPTR_MARKER @ endl)
     @ (case rightNode node of
          Some rn \<Rightarrow> KDNode_serialize showT rn | None \<Rightarrow> show_int NULLPTR_MARKER @ endl)"

text \<open>\<open>operator<<\<close> on a tree: the root's encoding when there is a root.\<close>

definition KDTree_serialize :: "('a \<Rightarrow> string) \<Rightarrow> 'a KDTree \<Rightarrow> string" where
  "KDTree_serialize showT tree =
     (case rootNode tree of Some root \<Rightarrow> KDNode_serialize showT root | None \<Rightarrow> [])"

text \<open>
  The loop \<open>while (point_stream >> elem) push_back(elem)\<close>. Nothing in the codec bounds
  the extractions of an arbitrary \<open>readT\<close>, so the loop is a partial function: \<open>None\<close> is
  a loop that never ends.
\<close>

partial_function (option) read_elems ::
  "(string \<Rightarrow> ('a \<times> string) option) \<Rightarrow> string \<Rightarrow> 'a list option" where
  "read_elems readT s =
     (case readT s of
        None \<Rightarrow> Some []
      | Some (elem, rest) \<Rightarrow> Option.bind (read_elems readT rest) (\<lambda>elems. Some (elem # elems)))"

text \<open>
  \<open>operator>>\<close> on a node that was constructed with \<open>KDNode<T>(axis)\<close>: the index, the
  coordinates, then each child, constructed with the axis read unless that is \<open>-1\<close>.
  The result is the node and the unread rest of the stream.
\<close>

partial_function (option) KDNode_deserialize ::
  "(string \<Rightarrow> ('a \<times> string) option) \<Rightarrow> int \<Rightarrow> string \<Rightarrow> ('a KDNode \<times> string) option" where
  "KDNode_deserialize readT ax inp =
     (let (idx, in1) = intFromStream inp;
          (line, in2) = getline in1
      in Option.bind (read_elems readT line) (\<lambda>pt.
           let (laxis, in3) = intFromStream in2
           in Option.bind
                (if laxis = - 1 then Some (None, in3)
                 else Option.bind (KDNode_deserialize readT laxis in3)
                        (\<lambda>(ln, unread). Some (Some ln, unread)))
                (\<lambda>(l, in4).
                   let (raxis, in5) = intFromStream in4
                   in Option.bind
                        (if raxis = - 1 then Some (None, in5)
                         else Option.bind (KDNode_deserialize readT raxis in5)
                                (\<lambda>(rn, unread). Some (Some rn, unread)))
                        (\<lambda>(r, in6).
                           Some (KDNode ax \<lparr>index = idx, point = pt\<rparr> l r, in6)))))"

text \<open>
  \<open>operator>>\<close> on a tree: the axis line first; \<open>-1\<close> (also the end of the stream) leaves
  the tree as it was.
\<close>

definition KDTree_deserialize ::
  "(string \<Rightarrow> ('a \<times> string) option) \<Rightarrow> 'a KDTree \<Rightarrow> string \<Rightarrow> ('a KDTree \<times> string) option" where
  "KDTree_deserialize readT tree inp =
     (let (ax, in1) = intFromStream inp
      in if ax = - 1 then Some (tree, in1)
         else Option.bind (KDNode_deserialize readT ax in1)
                (\<lambda>(root, unread). Some (tree\<lparr>rootNode := Some root\<rparr>, unread)))"

text \<open>
  The trees whose \<open>int\<close> fields the codec can carry: every axis and index fits an
  \<open>int\<close>, and no axis is the marker \<open>-1\<close>.
\<close>

fun int_fields_ok :: "'a KDNode \<Rightarrow> bool" where
  "int_fields_ok (KDNode ax loc l r) =
     (ax \<noteq> NULLPTR_MARKER \<and> INT_MIN \<le> ax \<and> ax \<le> INT_MAX
      \<and> INT_MIN \<le> index loc \<and> index loc \<le> INT_MAX
      \<and> (case l of None \<Rightarrow> True | Some ln \<Rightarrow> int_fields_ok ln)
      \<and> (case r of None \<Rightarrow> True | Some rn \<Rightarrow> int_fields_ok rn))"

text \<open>
  What the round trip needs of the two stream operations on \<open>T\<close>: an element written
  and followed by a space is read back, with the space left unread; a leading space
  is skipped; nothing is read from an empty stream; no element is written with a
  newline in it.
\<close>

definition codec_ok :: "('a \<Rightarrow> string) \<Rightarrow> (string \<Rightarrow> ('a \<times> string) option) \<Rightarrow> bool" where
  "codec_ok showT readT =
     ((\<forall>x rest. readT (showT x @ CHR '' '' # rest) = Some (x, CHR '' '' # rest))
      \<and> (\<forall>rest. readT (CHR '' '' # rest) = readT rest)
      \<and> readT [] = None
      \<and> (\<forall>x. newline \<notin> set (showT x)))"

section \<open>Properties of the build\<close>

declare build.simps [simp del]

subsection \<open>The two cases of the recursion\<close>


lemma build_leaf_elim:
  assumes "build sel data start fin pa = Inr (t, d)" "fin - start < 2"
  shows "t = KDNode ((pa + 1) mod int (length (point (data ! start)))) (data ! start) None None
         \<and> d = data \<and> start < length data \<and> point (data ! start) \<noteq> []"
  using assms by (subst (asm) build.simps) (auto split: if_splits)

lemma build_inner:
  fixes sel :: "('a::linorder) nth_element"
  assumes ok: "build sel (pre @ xs @ post) (length pre) (length pre + length xs) pa = Inr (t, d)"
    and big: "2 \<le> length xs"
  defines "ax \<equiv> (pa + 1) mod int (length (point (hd xs)))"
  defines "k \<equiv> length xs div 2"
  defines "ys \<equiv> sel ax k xs"
  shows "\<exists>l r d2.
           build sel (pre @ ys @ post) (length pre) (length pre + k) ax = Inr (l, d2)
         \<and> build sel d2 (length pre + k) (length pre + length xs) ax = Inr (r, d)
         \<and> t = KDNode ax ((pre @ ys @ post) ! (length pre + k)) (Some l) (Some r)
         \<and> point (hd xs) \<noteq> []
         \<and> (\<forall>p \<in> set xs. ax < int (length (point p)))
         \<and> length pre + k < length (pre @ ys @ post)"
proof -
  have xs: "xs \<noteq> []" using big by auto
  have hd: "(pre @ xs @ post) ! length pre = hd xs"
    using xs by (simp add: nth_append hd_conv_nth)
  have 1: "length pre \<noteq> length pre + length xs div 2" using big by arith
  have 2: "length pre + length xs div 2 \<noteq> length pre + length xs" using big by arith
  have 3: "\<not> length xs < 2" using big by simp
  show ?thesis
    using ok 1 2 3 xs
    apply (subst (asm) build.simps)
    apply (simp add: hd Let_def ax_def k_def ys_def split: if_splits sum.splits prod.splits)
    apply (auto simp: not_le)
    done
qed

subsection \<open>What the build leaves in the vector and in the tree\<close>

lemma spec_mset:
  "nth_element_spec sel \<Longrightarrow> n < length xs \<Longrightarrow> mset (sel ax n xs) = mset xs"
  by (simp add: nth_element_spec_def)

lemma spec_length:
  "nth_element_spec sel \<Longrightarrow> n < length xs \<Longrightarrow> length (sel ax n xs) = length xs"
  using spec_mset[of sel n xs ax] by (metis size_mset)

lemma spec_set:
  "nth_element_spec sel \<Longrightarrow> n < length xs \<Longrightarrow> set (sel ax n xs) = set xs"
  using spec_mset[of sel n xs ax] by (metis set_mset_mset)

lemma build_frame:
  fixes sel :: "('a::linorder) nth_element"
  assumes spec: "nth_element_spec sel"
  shows "build sel (pre @ xs @ post) (length pre) (length pre + length xs) pa = Inr (t, d)
         \<Longrightarrow> xs \<noteq> []
         \<Longrightarrow> \<exists>zs. d = pre @ zs @ post \<and> mset zs = mset xs \<and> set (locations t) = set xs"
proof (induction "length xs" arbitrary: pre xs post pa t d rule: less_induct)
  case less
  show ?case
  proof (cases "length xs < 2")
    case True
    then have one: "length pre + length xs - length pre < 2" by simp
    have hd: "(pre @ xs @ post) ! length pre = hd xs"
      using less.prems(2) by (simp add: nth_append hd_conv_nth)
    from True less.prems(2) have xs1: "xs = [hd xs]"
      by (cases xs) auto
    from build_leaf_elim[OF less.prems(1) one]
    have "d = pre @ xs @ post" and "set (locations t) = {hd xs}"
      by (simp_all add: hd)
    then show ?thesis using xs1 by (metis empty_set list.simps(15))
  next
    case False
    then have big: "2 \<le> length xs" by simp
    define ax where "ax = (pa + 1) mod int (length (point (hd xs)))"
    define k where "k = length xs div 2"
    define ys where "ys = sel ax k xs"
    from build_inner[OF less.prems(1) big, folded ax_def k_def, folded ys_def]
    obtain l r d2 where
      l: "build sel (pre @ ys @ post) (length pre) (length pre + k) ax = Inr (l, d2)"
      and r: "build sel d2 (length pre + k) (length pre + length xs) ax = Inr (r, d)"
      and t: "t = KDNode ax ((pre @ ys @ post) ! (length pre + k)) (Some l) (Some r)"
      by blast
    have k: "0 < k" "k < length xs" using big by (simp_all add: k_def)
    have ys_mset: "mset ys = mset xs" using spec_mset[OF spec k(2)] by (simp add: ys_def)
    have ys_len: "length ys = length xs" using spec_length[OF spec k(2)] by (simp add: ys_def)
    let ?ya = "take k ys" and ?yb = "drop k ys"
    have la: "length ?ya = k" using k ys_len by simp
    have lb: "length ?yb = length xs - k" using ys_len by simp
    have ysplit: "?ya @ ?yb @ post = ys @ post"
      by (metis append_assoc append_take_drop_id)
    have l': "build sel (pre @ ?ya @ (?yb @ post)) (length pre) (length pre + length ?ya) ax = Inr (l, d2)"
      using l la by (simp add: ysplit)
    have "\<exists>zs. d2 = pre @ zs @ (?yb @ post) \<and> mset zs = mset ?ya \<and> set (locations l) = set ?ya"
      by (rule less.hyps[OF _ l']) (use la k in auto)
    then obtain zs where zs: "d2 = pre @ zs @ ?yb @ post" "mset zs = mset ?ya" "set (locations l) = set ?ya"
      by auto
    have lzs: "length zs = k" using zs(2) la by (metis size_mset)
    have r': "build sel ((pre @ zs) @ ?yb @ post) (length (pre @ zs)) (length (pre @ zs) + length ?yb) ax = Inr (r, d)"
      using r zs(1) lzs lb k by simp
    have "\<exists>ws. d = (pre @ zs) @ ws @ post \<and> mset ws = mset ?yb \<and> set (locations r) = set ?yb"
      by (rule less.hyps[OF _ r']) (use lb k in auto)
    then obtain ws where ws: "d = (pre @ zs) @ ws @ post" "mset ws = mset ?yb" "set (locations r) = set ?yb"
      by auto
    have m1: "mset (zs @ ws) = mset xs"
      using zs(2) ws(2) ys_mset by (metis append_take_drop_id mset_append)
    have med: "(pre @ ys @ post) ! (length pre + k) = ys ! k"
      using k ys_len by (simp add: nth_append)
    have "ys ! k \<in> set ys" using k ys_len by simp
    moreover have "set ?ya \<union> set ?yb = set ys" by (metis append_take_drop_id set_append)
    moreover have "set ys = set xs" using ys_mset by (metis set_mset_mset)
    ultimately have "set (locations t) = set xs"
      using t zs(3) ws(3) med by auto
    then show ?thesis using ws(1) m1 by (intro exI[of _ "zs @ ws"]) simp
  qed
qed

subsection \<open>Shape, partition invariant and success\<close>

lemma build_children:
  assumes "build sel data start fin pa = Inr (t, d)" "\<not> fin - start < 2"
  shows "\<exists>ax d1 l d2 r.
           build sel d1 start (start + (fin - start) div 2) ax = Inr (l, d2)
         \<and> build sel d2 (start + (fin - start) div 2) fin ax = Inr (r, d)
         \<and> t = KDNode ax (d1 ! (start + (fin - start) div 2)) (Some l) (Some r)"
proof -
  have 1: "start \<noteq> start + (fin - start) div 2" using assms(2) by arith
  have 2: "start + (fin - start) div 2 \<noteq> fin" using assms(2) by arith
  show ?thesis
    using assms(1) assms(2) 1 2
    apply (subst (asm) build.simps)
    apply (simp add: Let_def split: if_splits sum.splits prod.splits)
    apply blast
    done
qed

lemma build_both_or_none:
  "build sel data start fin pa = Inr (t, d) \<Longrightarrow> both_or_none t"
proof (induction "fin - start" arbitrary: data start fin pa t d rule: less_induct)
  case less
  show ?case
  proof (cases "fin - start < 2")
    case True
    from build_leaf_elim[OF less.prems True] show ?thesis by simp
  next
    case False
    from build_children[OF less.prems False] obtain ax d1 l d2 r where
      l: "build sel d1 start (start + (fin - start) div 2) ax = Inr (l, d2)"
      and r: "build sel d2 (start + (fin - start) div 2) fin ax = Inr (r, d)"
      and t: "t = KDNode ax (d1 ! (start + (fin - start) div 2)) (Some l) (Some r)"
      by blast
    have "both_or_none l"
      by (rule less.hyps[OF _ l]) (use False in arith)
    moreover have "both_or_none r"
      by (rule less.hyps[OF _ r]) (use False in arith)
    ultimately show ?thesis using t by simp
  qed
qed

lemma build_step:
  fixes sel :: "('a::linorder) nth_element"
  assumes spec: "nth_element_spec sel"
    and ok: "build sel (pre @ xs @ post) (length pre) (length pre + length xs) pa = Inr (t, d)"
    and big: "2 \<le> length xs"
  defines "ax \<equiv> (pa + 1) mod int (length (point (hd xs)))"
  defines "k \<equiv> length xs div 2"
  defines "ys \<equiv> sel ax k xs"
  shows "\<exists>l r zs.
           build sel (pre @ take k ys @ (drop k ys @ post)) (length pre)
             (length pre + length (take k ys)) ax = Inr (l, pre @ zs @ (drop k ys @ post))
         \<and> build sel ((pre @ zs) @ drop k ys @ post) (length (pre @ zs))
             (length (pre @ zs) + length (drop k ys)) ax = Inr (r, d)
         \<and> t = KDNode ax (ys ! k) (Some l) (Some r)
         \<and> set (locations l) = set (take k ys)
         \<and> set (locations r) = set (drop k ys)"
proof -
  from build_inner[OF ok big, folded ax_def k_def, folded ys_def]
  obtain l r d2 where
    l: "build sel (pre @ ys @ post) (length pre) (length pre + k) ax = Inr (l, d2)"
    and r: "build sel d2 (length pre + k) (length pre + length xs) ax = Inr (r, d)"
    and t: "t = KDNode ax ((pre @ ys @ post) ! (length pre + k)) (Some l) (Some r)"
    by blast
  have k: "0 < k" "k < length xs" using big by (simp_all add: k_def)
  have ys_len: "length ys = length xs" using spec_length[OF spec k(2)] by (simp add: ys_def)
  let ?ya = "take k ys" and ?yb = "drop k ys"
  have la: "length ?ya = k" using k ys_len by simp
  have lb: "length ?yb = length xs - k" using ys_len by simp
  have ysplit: "?ya @ ?yb @ post = ys @ post"
    by (metis append_assoc append_take_drop_id)
  have l': "build sel (pre @ ?ya @ (?yb @ post)) (length pre) (length pre + length ?ya) ax = Inr (l, d2)"
    using l la by (simp add: ysplit)
  have "\<exists>zs. d2 = pre @ zs @ (?yb @ post) \<and> mset zs = mset ?ya \<and> set (locations l) = set ?ya"
    by (rule build_frame[OF spec l']) (use la k in auto)
  then obtain zs where zs: "d2 = pre @ zs @ ?yb @ post" "mset zs = mset ?ya" "set (locations l) = set ?ya"
    by auto
  have lzs: "length zs = k" using zs(2) la by (metis size_mset)
  have r': "build sel ((pre @ zs) @ ?yb @ post) (length (pre @ zs)) (length (pre @ zs) + length ?yb) ax = Inr (r, d)"
    using r zs(1) lzs lb k by simp
  have "\<exists>ws. d = (pre @ zs) @ ws @ post \<and> mset ws = mset ?yb \<and> set (locations r) = set ?yb"
    by (rule build_frame[OF spec r']) (use lb k in auto)
  then have rs: "set (locations r) = set ?yb" by blast
  have med: "(pre @ ys @ post) ! (length pre + k) = ys ! k"
    using k ys_len by (simp add: nth_append)
  show ?thesis
    using l' r' t zs(1,3) rs med by (intro exI[of _ l] exI[of _ r] exI[of _ zs]) simp
qed

lemma spec_left:
  assumes "nth_element_spec sel" "n < length xs" "p \<in> set (take n (sel ax n xs))"
  shows "point p ! nat ax \<le> point (sel ax n xs ! n) ! nat ax"
proof -
  have len: "length (sel ax n xs) = length xs" by (rule spec_length[OF assms(1,2)])
  from assms(3) obtain i where i: "i < n" "p = sel ax n xs ! i"
    using len assms(2) by (auto simp: in_set_conv_nth)
  have "\<not> IndexedPointCompare ax (sel ax n xs ! n) (sel ax n xs ! i)"
    using assms(1,2) i(1) unfolding nth_element_spec_def by blast
  then show ?thesis using i(2) by (simp add: IndexedPointCompare_def not_less)
qed

lemma spec_right:
  assumes "nth_element_spec sel" "n < length xs" "p \<in> set (drop n (sel ax n xs))"
  shows "point (sel ax n xs ! n) ! nat ax \<le> point p ! nat ax"
proof -
  have len: "length (sel ax n xs) = length xs" by (rule spec_length[OF assms(1,2)])
  from assms(3) obtain j where j: "n \<le> j" "j < length xs" "p = sel ax n xs ! j"
    using len by (auto simp: in_set_conv_nth) (metis add.commute le_add2 less_diff_conv)
  have "\<not> IndexedPointCompare ax (sel ax n xs ! j) (sel ax n xs ! n)"
    using assms(1,2) j(1,2) unfolding nth_element_spec_def by blast
  then show ?thesis using j(3) by (simp add: IndexedPointCompare_def not_less)
qed

lemma build_kd:
  fixes sel :: "('a::linorder) nth_element"
  assumes spec: "nth_element_spec sel"
  shows "build sel (pre @ xs @ post) (length pre) (length pre + length xs) pa = Inr (t, d)
         \<Longrightarrow> xs \<noteq> [] \<Longrightarrow> \<forall>p \<in> set xs. length (point p) = D
         \<Longrightarrow> kd_inv D t \<and> axes_cycle D pa t"
proof (induction "length xs" arbitrary: pre xs post pa t d rule: less_induct)
  case less
  have hdD: "length (point (hd xs)) = D" using less.prems(2,3) by simp
  have hd: "(pre @ xs @ post) ! length pre = hd xs"
    using less.prems(2) by (simp add: nth_append hd_conv_nth)
  show ?case
  proof (cases "length xs < 2")
    case True
    then have one: "length pre + length xs - length pre < 2" by simp
    from build_leaf_elim[OF less.prems(1) one]
    have t: "t = KDNode ((pa + 1) mod int D) (hd xs) None None" and ne: "point (hd xs) \<noteq> []"
      by (simp_all add: hd hdD)
    have "0 < D" using ne hdD by auto
    then show ?thesis using t hdD by simp
  next
    case False
    then have big: "2 \<le> length xs" by simp
    define ax where "ax = (pa + 1) mod int (length (point (hd xs)))"
    define k where "k = length xs div 2"
    define ys where "ys = sel ax k xs"
    have k: "0 < k" "k < length xs" using big by (simp_all add: k_def)
    have ys_len: "length ys = length xs" using spec_length[OF spec k(2)] by (simp add: ys_def)
    have ys_set: "set ys = set xs" using spec_set[OF spec k(2)] by (simp add: ys_def)
    from build_inner[OF less.prems(1) big] have ne: "point (hd xs) \<noteq> []" by blast
    then have D: "0 < D" using hdD by auto
    have axD: "ax = (pa + 1) mod int D" by (simp add: ax_def hdD)
    have ax_rng: "0 \<le> ax" "ax < int D" using D by (simp_all add: axD)
    from build_step[OF spec less.prems(1) big, folded ax_def k_def, folded ys_def]
    obtain l r zs where
      l: "build sel (pre @ take k ys @ (drop k ys @ post)) (length pre)
            (length pre + length (take k ys)) ax = Inr (l, pre @ zs @ (drop k ys @ post))"
      and r: "build sel ((pre @ zs) @ drop k ys @ post) (length (pre @ zs))
            (length (pre @ zs) + length (drop k ys)) ax = Inr (r, d)"
      and t: "t = KDNode ax (ys ! k) (Some l) (Some r)"
      and ls: "set (locations l) = set (take k ys)"
      and rs: "set (locations r) = set (drop k ys)"
      by blast
    have sub_a: "\<forall>p \<in> set (take k ys). length (point p) = D"
      using less.prems(3) ys_set by (auto dest: in_set_takeD)
    have sub_b: "\<forall>p \<in> set (drop k ys). length (point p) = D"
      using less.prems(3) ys_set by (auto dest: in_set_dropD)
    have il: "kd_inv D l \<and> axes_cycle D ax l"
      by (rule less.hyps[OF _ l _ sub_a]) (use k ys_len in auto)
    have ir: "kd_inv D r \<and> axes_cycle D ax r"
      by (rule less.hyps[OF _ r _ sub_b]) (use k ys_len in auto)
    have medD: "length (point (ys ! k)) = D"
      using less.prems(3) ys_set k ys_len by (metis nth_mem)
    have left: "\<forall>p \<in> set (locations l). point p ! nat ax \<le> point (ys ! k) ! nat ax"
      using spec_left[OF spec k(2), of _ ax] ls by (simp add: ys_def)
    have right: "\<forall>p \<in> set (locations r). point (ys ! k) ! nat ax \<le> point p ! nat ax"
      using spec_right[OF spec k(2), of _ ax] rs by (simp add: ys_def)
    show ?thesis
      using t il ir ax_rng medD left right axD by (simp add: list_all_iff)
  qed
qed


subsection \<open>The sorting \<open>nth_element\<close> meets the specification\<close>

lemma nth_element_sort_spec: "nth_element_spec (nth_element_sort :: ('a::linorder) nth_element)"
proof -
  have ord: "\<not> IndexedPointCompare ax (nth_element_sort ax n xs ! j) (nth_element_sort ax n xs ! i)"
    if "i \<le> j" "j < length xs" for ax n i j and xs :: "'a IndexedPoint list"
  proof -
    let ?f = "\<lambda>p :: 'a IndexedPoint. point p ! nat ax"
    let ?ys = "sort_key ?f xs"
    have "sorted (map ?f ?ys)" by (rule sorted_sort_key)
    moreover have "j < length (map ?f ?ys)" using that by simp
    ultimately have "map ?f ?ys ! i \<le> map ?f ?ys ! j"
      using that(1) by (simp only: sorted_nth_mono)
    then show ?thesis
      using that by (simp add: nth_element_sort_def IndexedPointCompare_def not_less)
  qed
  show ?thesis
    unfolding nth_element_spec_def
  proof (intro allI impI conjI)
    fix ax n and xs :: "'a IndexedPoint list"
    show "mset (nth_element_sort ax n xs) = mset xs"
      by (simp add: nth_element_sort_def)
  next
    fix ax n i j and xs :: "'a IndexedPoint list"
    assume "i < n \<and> n \<le> j \<and> j < length xs"
    then show "\<not> IndexedPointCompare ax (nth_element_sort ax n xs ! j) (nth_element_sort ax n xs ! i)"
      by (intro ord) auto
  next
    fix ax n j and xs :: "'a IndexedPoint list"
    assume "n \<le> j \<and> j < length xs"
    then show "\<not> IndexedPointCompare ax (nth_element_sort ax n xs ! j) (nth_element_sort ax n xs ! n)"
      by (intro ord) auto
  qed
qed

subsection \<open>The top-level build\<close>

lemma indexed_copy_length [simp]: "length (indexed_copy data) = length data"
  by (simp add: indexed_copy_def)

lemma KDTree_build_elim:
  assumes "KDTree_build sel tree data = Inr (ok, tree')"
  shows "\<exists>root d. build sel (indexed_copy data) 0 (length data) (- 1) = Inr (root, d)
           \<and> ok = True \<and> tree' = tree\<lparr>rootNode := Some root\<rparr>"
  using assms by (auto simp: KDTree_build_def Let_def split: sum.splits)

lemma build_two:
  assumes "build sel data start fin pa = Inr (t, d)" "fin - start = 2"
  shows "\<exists>ax ax' l. t = KDNode ax' (location t) (Some l) (Some (KDNode ax (location t) None None))"
proof -
  have m: "start + (fin - start) div 2 = start + 1" using assms(2) by simp
  have 3: "\<not> fin - start < 2" using assms(2) by simp
  from build_children[OF assms(1) 3, unfolded m] obtain ax d1 l d2 r where
    l: "build sel d1 start (start + 1) ax = Inr (l, d2)"
    and r: "build sel d2 (start + 1) fin ax = Inr (r, d)"
    and t: "t = KDNode ax (d1 ! (start + 1)) (Some l) (Some r)"
    by blast
  have "d2 = d1" using build_leaf_elim[OF l] by simp
  moreover have "\<exists>ax. r = KDNode ax (d2 ! (start + 1)) None None"
    using build_leaf_elim[OF r] assms(2) by simp
  ultimately show ?thesis using t by auto
qed

lemma indexed_copy_mem:
  assumes "p \<in> set (indexed_copy data)"
  shows "0 \<le> index p \<and> index p < int (length data) \<and> point p = data ! nat (index p)"
  using assms by (auto simp: indexed_copy_def)

lemma indexed_copy_dim:
  assumes "\<forall>p \<in> set data. length p = D"
  shows "\<forall>p \<in> set (indexed_copy data). length (point p) = D"
  using assms by (auto simp: indexed_copy_def)

lemma KDTree_build_root:
  assumes "KDTree_build sel tree data = Inr (ok, tree')"
  shows "\<exists>root d. build sel ([] @ indexed_copy data @ []) (length ([] :: 'a IndexedPoint list))
                     (length ([] :: 'a IndexedPoint list) + length (indexed_copy data)) (- 1) = Inr (root, d)
           \<and> ok = True \<and> tree' = tree\<lparr>rootNode := Some root\<rparr> \<and> indexed_copy data \<noteq> []"
proof -
  from KDTree_build_elim[OF assms] obtain root d where
    b: "build sel (indexed_copy data) 0 (length data) (- 1) = Inr (root, d)"
    and t: "ok = True" "tree' = tree\<lparr>rootNode := Some root\<rparr>"
    by blast
  have "data \<noteq> []"
    using b by (subst (asm) build.simps) (auto simp: indexed_copy_def)
  then have "indexed_copy data \<noteq> []" by (simp add: indexed_copy_def)
  then show ?thesis using b t by simp
qed

lemma KDTree_build_locations:
  fixes sel :: "('a::linorder) nth_element"
  assumes "nth_element_spec sel" "KDTree_build sel tree data = Inr (ok, tree')"
  shows "\<exists>root. rootNode tree' = Some root \<and> ok = True
           \<and> tree' = tree\<lparr>rootNode := Some root\<rparr>
           \<and> set (locations root) = set (indexed_copy data)"
proof -
  from KDTree_build_root[OF assms(2)] obtain root d where
    b: "build sel ([] @ indexed_copy data @ []) (length ([] :: 'a IndexedPoint list))
          (length ([] :: 'a IndexedPoint list) + length (indexed_copy data)) (- 1) = Inr (root, d)"
    and t: "ok = True" "tree' = tree\<lparr>rootNode := Some root\<rparr>" and ne: "indexed_copy data \<noteq> []"
    by blast
  from build_frame[OF assms(1) b ne] have "set (locations root) = set (indexed_copy data)"
    by blast
  then show ?thesis using t by simp
qed

section \<open>Properties of the search\<close>

subsection \<open>The exact squared distance\<close>






subsection \<open>The machine's distances where the arithmetic is exact\<close>











subsection \<open>The state of the search\<close>





subsection \<open>One node of the search\<close>





subsection \<open>The whole search\<close>



subsection \<open>The brute-force scan\<close>


subsection \<open>The 32-bit machine is exact up to the greatest \<open>int\<close>\<close>



section \<open>Properties of the codec\<close>

subsection \<open>Integers written and read back\<close>

declare show_nat.simps [simp del]

lemma of_char_digit: "d < 10 \<Longrightarrow> (of_char (digit_char d) :: nat) = 48 + d"
  by (simp add: digit_char_def)

lemma digit_char_props:
  assumes "d < 10"
  shows "isdigit (digit_char d)" "digit_val (digit_char d) = d"
    "digit_char d \<noteq> newline" "\<not> isspace (digit_char d)"
    "digit_char d \<noteq> CHR ''-''" "digit_char d \<noteq> CHR ''+''"
proof -
  note v = of_char_digit[OF assms]
  have ne: "digit_char d \<noteq> c" if "(of_char c :: nat) < 48" for c
    using that v by (metis not_add_less1)
  show "isdigit (digit_char d)" using assms v by (simp add: isdigit_def)
  show "digit_val (digit_char d) = d" using v by (simp add: digit_val_def)
  show "digit_char d \<noteq> newline" by (rule ne) (simp add: newline_def)
  show "digit_char d \<noteq> CHR ''-''" by (rule ne) simp
  show "digit_char d \<noteq> CHR ''+''" by (rule ne) simp
  have "digit_char d \<noteq> CHR '' ''" "digit_char d \<noteq> CHR 0x09" "digit_char d \<noteq> CHR 0x0A"
    "digit_char d \<noteq> CHR 0x0B" "digit_char d \<noteq> CHR 0x0C" "digit_char d \<noteq> CHR 0x0D"
    by (rule ne, simp)+
  then show "\<not> isspace (digit_char d)" by (simp add: isspace_def)
qed

lemma show_nat_digits: "\<forall>c \<in> set (show_nat n). \<exists>d < 10. c = digit_char d"
proof (induction n rule: show_nat.induct)
  case (1 n)
  show ?case
  proof (cases "n < 10")
    case True
    then show ?thesis by (subst show_nat.simps) auto
  next
    case False
    have "\<exists>d<10. digit_char (n mod 10) = digit_char d"
      by (intro exI[of _ "n mod 10"]) simp
    then show ?thesis using 1[OF False] False
      by (subst show_nat.simps) simp
  qed
qed

lemma show_nat_nonempty: "show_nat n \<noteq> []"
  by (subst show_nat.simps) simp

lemma read_digits_snoc: "read_digits (ds @ [c]) = 10 * read_digits ds + digit_val c"
  by (simp add: read_digits_def)

lemma read_digits_show_nat: "read_digits (show_nat n) = n"
proof (induction n rule: show_nat.induct)
  case (1 n)
  show ?case
  proof (cases "n < 10")
    case True
    then show ?thesis
      by (subst show_nat.simps) (simp add: read_digits_def digit_char_props)
  next
    case False
    have "n mod 10 < 10" by simp
    then have "digit_val (digit_char (n mod 10)) = n mod 10" by (rule digit_char_props)
    then show ?thesis using 1[OF False] False
      by (subst show_nat.simps) (simp add: read_digits_snoc)
  qed
qed

lemma show_nat_isdigit: "c \<in> set (show_nat n) \<Longrightarrow> isdigit c"
proof -
  assume "c \<in> set (show_nat n)"
  then obtain d where "d < 10" "c = digit_char d"
    using show_nat_digits[of n] by blast
  then show "isdigit c" by (simp only: digit_char_props(1))
qed

lemma show_nat_hd:
  "isdigit (hd (show_nat n))" "\<not> isspace (hd (show_nat n))"
  "hd (show_nat n) \<noteq> CHR ''-''" "hd (show_nat n) \<noteq> CHR ''+''"
proof -
  have "hd (show_nat n) \<in> set (show_nat n)"
    by (rule hd_in_set) (rule show_nat_nonempty)
  then obtain d where d: "d < 10" "hd (show_nat n) = digit_char d"
    using show_nat_digits[of n] by blast
  show "isdigit (hd (show_nat n))" unfolding d(2) by (rule digit_char_props(1)[OF d(1)])
  show "\<not> isspace (hd (show_nat n))" unfolding d(2) by (rule digit_char_props(4)[OF d(1)])
  show "hd (show_nat n) \<noteq> CHR ''-''" unfolding d(2) by (rule digit_char_props(5)[OF d(1)])
  show "hd (show_nat n) \<noteq> CHR ''+''" unfolding d(2) by (rule digit_char_props(6)[OF d(1)])
qed

lemma takeWhile_digits:
  assumes "rest = [] \<or> \<not> isdigit (hd rest)"
  shows "takeWhile isdigit (show_nat n @ rest) = show_nat n"
    and "dropWhile isdigit (show_nat n @ rest) = rest"
proof -
  have all: "\<forall>c \<in> set (show_nat n). isdigit c" using show_nat_isdigit by blast
  have r: "takeWhile isdigit rest = []" "dropWhile isdigit rest = rest"
    using assms by (cases rest; simp)+
  show "takeWhile isdigit (show_nat n @ rest) = show_nat n"
    using all r by (simp add: takeWhile_append2)
  show "dropWhile isdigit (show_nat n @ rest) = rest"
    using all r by (simp add: dropWhile_append2)
qed

lemma minus_not_space: "\<not> isspace (CHR ''-'')"
  by (simp add: isspace_def)

lemma read_integer_neg:
  assumes "ds \<noteq> []" "takeWhile isdigit (ds @ rest) = ds" "dropWhile isdigit (ds @ rest) = rest"
  shows "read_integer (CHR ''-'' # ds @ rest) = Some (- int (read_digits ds), rest)"
proof -
  have s1: "dropWhile isspace (CHR ''-'' # ds @ rest) = CHR ''-'' # ds @ rest"
    using minus_not_space by simp
  show ?thesis
    unfolding read_integer_def s1 Let_def using assms by simp
qed

lemma read_integer_pos:
  assumes "ds \<noteq> []" "\<not> isspace (hd ds)" "hd ds \<noteq> CHR ''-''" "hd ds \<noteq> CHR ''+''"
    and "takeWhile isdigit (ds @ rest) = ds" "dropWhile isdigit (ds @ rest) = rest"
  shows "read_integer (ds @ rest) = Some (int (read_digits ds), rest)"
proof -
  obtain c cs where ds: "ds = c # cs" using assms(1) by (cases ds) auto
  have s1: "dropWhile isspace (ds @ rest) = ds @ rest"
    using assms(2) unfolding ds by simp
  have h: "hd (ds @ rest) = c" "ds @ rest \<noteq> []" unfolding ds by simp_all
  have c: "c \<noteq> CHR ''-''" "c \<noteq> CHR ''+''" using assms(3,4) unfolding ds by simp_all
  show ?thesis
    unfolding read_integer_def s1 Let_def h using assms(1,5,6) c by simp
qed

lemma read_integer_show_int:
  assumes "rest = [] \<or> \<not> isdigit (hd rest)"
  shows "read_integer (show_int i @ rest) = Some (i, rest)"
proof (cases "i < 0")
  case True
  let ?n = "nat (- i)"
  have "read_integer (CHR ''-'' # show_nat ?n @ rest) = Some (- int (read_digits (show_nat ?n)), rest)"
    by (rule read_integer_neg[OF show_nat_nonempty takeWhile_digits[OF assms]])
  moreover have "- int (read_digits (show_nat ?n)) = i"
    using True by (simp add: read_digits_show_nat)
  moreover have "show_int i = CHR ''-'' # show_nat ?n"
    using True by (simp add: show_int_def)
  ultimately show ?thesis by simp
next
  case False
  let ?n = "nat i"
  have "read_integer (show_nat ?n @ rest) = Some (int (read_digits (show_nat ?n)), rest)"
    by (rule read_integer_pos[OF show_nat_nonempty show_nat_hd(2,3,4) takeWhile_digits[OF assms]])
  moreover have "int (read_digits (show_nat ?n)) = i"
    using False by (simp add: read_digits_show_nat)
  moreover have "show_int i = show_nat ?n"
    using False by (simp add: show_int_def)
  ultimately show ?thesis by simp
qed

lemma show_nat_no_newline: "newline \<notin> set (show_nat n)"
proof
  assume "newline \<in> set (show_nat n)"
  then obtain d where d: "d < 10" "newline = digit_char d"
    using show_nat_digits[of n] by blast
  from digit_char_props(3)[OF d(1)] d(2)[symmetric] show False by (rule notE)
qed

lemma show_int_no_newline: "newline \<notin> set (show_int i)"
proof (cases "i < 0")
  case True
  have "CHR ''-'' \<noteq> newline" by (simp add: newline_def)
  then show ?thesis using True show_nat_no_newline[of "nat (- i)"]
    unfolding show_int_def by (simp del: set_ConsD) 
next
  case False
  then show ?thesis using show_nat_no_newline[of "nat i"] unfolding show_int_def by simp
qed

lemma getline_line:
  assumes "newline \<notin> set s"
  shows "getline (s @ endl @ rest) = (s, rest)"
proof -
  have "\<forall>c \<in> set s. c \<noteq> newline" using assms by blast
  then show ?thesis
    by (simp add: getline_def endl_def takeWhile_append2 dropWhile_append2)
qed

lemma intFromStream_show_int:
  assumes "INT_MIN \<le> i" "i \<le> INT_MAX"
  shows "intFromStream (show_int i @ endl @ rest) = (i, rest)"
proof -
  have "read_integer (show_int i @ []) = Some (i, [])"
    by (rule read_integer_show_int) simp
  then have "read_int (show_int i) = Some (i, [])"
    using assms by (simp add: read_int_def)
  then show ?thesis
    by (simp add: intFromStream_def getline_line[OF show_int_no_newline])
qed

lemma intFromStream_marker:
  "intFromStream (show_int NULLPTR_MARKER @ endl @ rest) = (- 1, rest)"
  using intFromStream_show_int[of "- 1" rest]
  by (simp add: NULLPTR_MARKER_def INT_MIN_def INT_MAX_def)

lemma read_integer_skip_space: "read_integer (CHR '' '' # rest) = read_integer rest"
proof -
  have "isspace (CHR '' '')" by (simp add: isspace_def)
  then have "dropWhile isspace (CHR '' '' # rest) = dropWhile isspace rest" by simp
  then show ?thesis unfolding read_integer_def by (simp only:)
qed

lemma space_not_digit: "\<not> isdigit (CHR '' '')"
  by (simp add: isdigit_def)

lemma codec_ok_int: "codec_ok show_int read_integer"
  unfolding codec_ok_def
proof (intro conjI allI)
  fix x rest
  have "CHR '' '' # rest = [] \<or> \<not> isdigit (hd (CHR '' '' # rest))"
    using space_not_digit by simp
  then show "read_integer (show_int x @ CHR '' '' # rest) = Some (x, CHR '' '' # rest)"
    by (rule read_integer_show_int)
  show "read_integer (CHR '' '' # rest) = read_integer rest"
    by (rule read_integer_skip_space)
  show "newline \<notin> set (show_int x)" by (rule show_int_no_newline)
next
  show "read_integer [] = None" by (simp add: read_integer_def)
qed

subsection \<open>Nodes and trees written and read back\<close>

lemma read_elems_skip_space:
  assumes "codec_ok showT readT"
  shows "read_elems readT (CHR '' '' # rest) = read_elems readT rest"
proof -
  have "readT (CHR '' '' # rest) = readT rest" using assms by (simp add: codec_ok_def)
  then show ?thesis
    by (subst read_elems.simps, subst (2) read_elems.simps) (simp only:)
qed

lemma read_elems_roundtrip:
  assumes "codec_ok showT readT"
  shows "read_elems readT (concat (map (\<lambda>x. showT x @ '' '') xs)) = Some xs"
proof (induction xs)
  case Nil
  have "readT [] = None" using assms by (simp add: codec_ok_def)
  then show ?case by (subst read_elems.simps) simp
next
  case (Cons x xs)
  let ?R = "concat (map (\<lambda>x. showT x @ '' '') xs)"
  have r: "readT (showT x @ CHR '' '' # ?R) = Some (x, CHR '' '' # ?R)"
    using assms by (simp add: codec_ok_def)
  have "read_elems readT (showT x @ CHR '' '' # ?R) =
          Option.bind (read_elems readT (CHR '' '' # ?R)) (\<lambda>elems. Some (x # elems))"
    by (subst read_elems.simps) (simp add: r)
  also have "\<dots> = Some (x # xs)"
    by (simp add: read_elems_skip_space[OF assms] Cons.IH)
  finally show ?case by simp
qed

lemma point_line_no_newline:
  assumes "codec_ok showT readT"
  shows "newline \<notin> set (concat (map (\<lambda>x. showT x @ '' '') xs))"
proof -
  have "newline \<notin> set (showT x)" for x using assms by (simp add: codec_ok_def)
  moreover have "newline \<noteq> CHR '' ''" by (simp add: newline_def)
  ultimately show ?thesis by (induction xs) auto
qed

lemma KDNode_serialize_split:
  "KDNode_serialize showT t = show_int (axis t) @ endl @ KDNode_serialize_body showT t"
  by (cases t) (simp add: KDNode_serialize_body_def)

lemma int_fields_ok_axis:
  assumes "int_fields_ok n"
  shows "axis n \<noteq> - 1" "INT_MIN \<le> axis n" "axis n \<le> INT_MAX"
    "INT_MIN \<le> index (location n)" "index (location n) \<le> INT_MAX"
  using assms by (cases n; simp add: NULLPTR_MARKER_def)+

lemma child_roundtrip:
  assumes IH: "\<And>n rest. c = Some n \<Longrightarrow>
                 KDNode_deserialize readT (axis n) (KDNode_serialize_body showT n @ rest) = Some (n, rest)"
    and fields: "case c of None \<Rightarrow> True | Some n \<Rightarrow> int_fields_ok n"
  shows "\<exists>a B.
           intFromStream ((case c of Some n \<Rightarrow> KDNode_serialize showT n
                                   | None \<Rightarrow> show_int NULLPTR_MARKER @ endl) @ rest) = (a, B)
         \<and> (if a = - 1 then Some (None, B)
            else Option.bind (KDNode_deserialize readT a B) (\<lambda>(n, unread). Some (Some n, unread)))
           = Some (c, rest)"
proof (cases c)
  case None
  have "intFromStream (show_int NULLPTR_MARKER @ endl @ rest) = (- 1, rest)"
    by (rule intFromStream_marker)
  then show ?thesis unfolding None by simp
next
  case (Some n)
  have f: "int_fields_ok n" using fields unfolding Some by simp
  have "intFromStream (show_int (axis n) @ endl @ KDNode_serialize_body showT n @ rest)
          = (axis n, KDNode_serialize_body showT n @ rest)"
    by (rule intFromStream_show_int[OF int_fields_ok_axis(2,3)[OF f]])
  then have a: "intFromStream (KDNode_serialize showT n @ rest)
          = (axis n, KDNode_serialize_body showT n @ rest)"
    by (simp add: KDNode_serialize_split)
  have b: "KDNode_deserialize readT (axis n) (KDNode_serialize_body showT n @ rest) = Some (n, rest)"
    by (rule IH[OF Some])
  show ?thesis
    unfolding Some using a b int_fields_ok_axis(1)[OF f] by simp
qed

lemma KDNode_roundtrip:
  assumes ok: "codec_ok showT readT"
  shows "int_fields_ok t \<Longrightarrow>
         KDNode_deserialize readT (axis t) (KDNode_serialize_body showT t @ rest) = Some (t, rest)"
proof (induction t arbitrary: rest)
  case (KDNode ax loc l r)
  let ?enc = "\<lambda>c. case c of Some n \<Rightarrow> KDNode_serialize showT n
                          | None \<Rightarrow> show_int NULLPTR_MARKER @ endl"
  let ?pl = "concat (map (\<lambda>x. showT x @ '' '') (point loc))"
  have fl: "case l of None \<Rightarrow> True | Some n \<Rightarrow> int_fields_ok n"
    and fr: "case r of None \<Rightarrow> True | Some n \<Rightarrow> int_fields_ok n"
    and idx: "INT_MIN \<le> index loc" "index loc \<le> INT_MAX"
    using KDNode.prems by simp_all
  have IHl: "KDNode_deserialize readT (axis n) (KDNode_serialize_body showT n @ rest') = Some (n, rest')"
    if "l = Some n" for n rest'
    using KDNode.IH(1)[of n rest'] fl that by simp
  have IHr: "KDNode_deserialize readT (axis n) (KDNode_serialize_body showT n @ rest') = Some (n, rest')"
    if "r = Some n" for n rest'
    using KDNode.IH(2)[of n rest'] fr that by simp
  from child_roundtrip[of l readT showT "?enc r @ rest", OF IHl fl] obtain al Bl where
    l1: "intFromStream (?enc l @ ?enc r @ rest) = (al, Bl)"
    and l2: "(if al = - 1 then Some (None, Bl)
              else Option.bind (KDNode_deserialize readT al Bl) (\<lambda>(n, unread). Some (Some n, unread)))
             = Some (l, ?enc r @ rest)"
    by blast
  from child_roundtrip[of r readT showT rest, OF IHr fr] obtain ar Br where
    r1: "intFromStream (?enc r @ rest) = (ar, Br)"
    and r2: "(if ar = - 1 then Some (None, Br)
              else Option.bind (KDNode_deserialize readT ar Br) (\<lambda>(n, unread). Some (Some n, unread)))
             = Some (r, rest)"
    by blast
  have i1: "intFromStream (show_int (index loc) @ endl @ ?pl @ endl @ ?enc l @ ?enc r @ rest)
              = (index loc, ?pl @ endl @ ?enc l @ ?enc r @ rest)"
    by (rule intFromStream_show_int[OF idx])
  have g1: "getline (?pl @ endl @ ?enc l @ ?enc r @ rest) = (?pl, ?enc l @ ?enc r @ rest)"
    by (rule getline_line[OF point_line_no_newline[OF ok]])
  have e1: "read_elems readT ?pl = Some (point loc)"
    by (rule read_elems_roundtrip[OF ok])
  have body: "KDNode_serialize_body showT (KDNode ax loc l r) @ rest
                = show_int (index loc) @ endl @ ?pl @ endl @ ?enc l @ ?enc r @ rest"
    by (simp add: KDNode_serialize_body_def)
  show ?case
    unfolding body KDNode.sel
    apply (subst KDNode_deserialize.simps)
    apply (simp only: i1 g1 e1 l1 l2 r1 r2 Let_def prod.case Option.bind.simps)
    apply simp
    done
qed

lemma KDTree_roundtrip:
  assumes "codec_ok showT readT" "rootNode tree = Some root" "int_fields_ok root"
  shows "KDTree_deserialize readT tree0 (KDTree_serialize showT tree)
           = Some (tree0\<lparr>rootNode := Some root\<rparr>, [])"
proof -
  have "intFromStream (show_int (axis root) @ endl @ KDNode_serialize_body showT root)
          = (axis root, KDNode_serialize_body showT root)"
    by (rule intFromStream_show_int[OF int_fields_ok_axis(2,3)[OF assms(3)]])
  then have a: "intFromStream (KDNode_serialize showT root) = (axis root, KDNode_serialize_body showT root)"
    by (simp add: KDNode_serialize_split)
  have "KDNode_deserialize readT (axis root) (KDNode_serialize_body showT root @ []) = Some (root, [])"
    by (rule KDNode_roundtrip[OF assms(1,3)])
  then have b: "KDNode_deserialize readT (axis root) (KDNode_serialize_body showT root) = Some (root, [])"
    by simp
  show ?thesis
    using a b int_fields_ok_axis(1)[OF assms(3)] assms(2)
    by (simp add: KDTree_deserialize_def KDTree_serialize_def)
qed

lemma build_int_fields:
  fixes sel :: "('a::linorder) nth_element"
  assumes spec: "nth_element_spec sel"
  shows "build sel (pre @ xs @ post) (length pre) (length pre + length xs) pa = Inr (t, d)
         \<Longrightarrow> xs \<noteq> []
         \<Longrightarrow> \<forall>p \<in> set xs. INT_MIN \<le> index p \<and> index p \<le> INT_MAX
                             \<and> int (length (point p)) \<le> INT_MAX
         \<Longrightarrow> int_fields_ok t"
proof (induction "length xs" arbitrary: pre xs post pa t d rule: less_induct)
  case less
  have hdin: "hd xs \<in> set xs" using less.prems(2) by simp
  have hd: "(pre @ xs @ post) ! length pre = hd xs"
    using less.prems(2) by (simp add: nth_append hd_conv_nth)
  have axis_ok: "(pa + 1) mod int (length (point (hd xs))) \<noteq> NULLPTR_MARKER
                 \<and> INT_MIN \<le> (pa + 1) mod int (length (point (hd xs)))
                 \<and> (pa + 1) mod int (length (point (hd xs))) \<le> INT_MAX"
    if ne: "point (hd xs) \<noteq> []"
  proof -
    let ?m = "int (length (point (hd xs)))"
    have pos: "0 < ?m" using ne by simp
    have "0 \<le> (pa + 1) mod ?m" "(pa + 1) mod ?m < ?m" using pos by simp_all
    moreover have "?m \<le> INT_MAX" using less.prems(3) hdin by blast
    ultimately show ?thesis by (simp add: NULLPTR_MARKER_def INT_MIN_def)
  qed
  show ?case
  proof (cases "length xs < 2")
    case True
    then have one: "length pre + length xs - length pre < 2" by simp
    from build_leaf_elim[OF less.prems(1) one]
    have t: "t = KDNode ((pa + 1) mod int (length (point (hd xs)))) (hd xs) None None"
      and ne: "point (hd xs) \<noteq> []"
      by (simp_all add: hd)
    show ?thesis using t axis_ok[OF ne] less.prems(3) hdin by simp
  next
    case False
    then have big: "2 \<le> length xs" by simp
    define ax where "ax = (pa + 1) mod int (length (point (hd xs)))"
    define k where "k = length xs div 2"
    define ys where "ys = sel ax k xs"
    have k: "0 < k" "k < length xs" using big by (simp_all add: k_def)
    have ys_len: "length ys = length xs" using spec_length[OF spec k(2)] by (simp add: ys_def)
    have ys_set: "set ys = set xs" using spec_set[OF spec k(2)] by (simp add: ys_def)
    from build_inner[OF less.prems(1) big] have ne: "point (hd xs) \<noteq> []" by blast
    from build_step[OF spec less.prems(1) big, folded ax_def k_def, folded ys_def]
    obtain l r zs where
      l: "build sel (pre @ take k ys @ (drop k ys @ post)) (length pre)
            (length pre + length (take k ys)) ax = Inr (l, pre @ zs @ (drop k ys @ post))"
      and r: "build sel ((pre @ zs) @ drop k ys @ post) (length (pre @ zs))
            (length (pre @ zs) + length (drop k ys)) ax = Inr (r, d)"
      and t: "t = KDNode ax (ys ! k) (Some l) (Some r)"
      by blast
    have sub_a: "\<forall>p \<in> set (take k ys). INT_MIN \<le> index p \<and> index p \<le> INT_MAX
                             \<and> int (length (point p)) \<le> INT_MAX"
      using less.prems(3) ys_set by (auto dest: in_set_takeD)
    have sub_b: "\<forall>p \<in> set (drop k ys). INT_MIN \<le> index p \<and> index p \<le> INT_MAX
                             \<and> int (length (point p)) \<le> INT_MAX"
      using less.prems(3) ys_set by (auto dest: in_set_dropD)
    have il: "int_fields_ok l"
      by (rule less.hyps[OF _ l _ sub_a]) (use k ys_len in auto)
    have ir: "int_fields_ok r"
      by (rule less.hyps[OF _ r _ sub_b]) (use k ys_len in auto)
    have "ys ! k \<in> set xs" using ys_set k ys_len by (metis nth_mem)
    then have med: "INT_MIN \<le> index (ys ! k) \<and> index (ys ! k) \<le> INT_MAX"
      using less.prems(3) by blast
    show ?thesis
      using t il ir med axis_ok[OF ne] by (simp add: ax_def)
  qed
qed

section \<open>The claims\<close>

subsection \<open>Children come in pairs\<close>

text \<open>
  C10. Whenever \<open>KDTree::build\<close> returns, the tree has a root, and every node of it is
  a leaf or has both children; with two points or more the root has both.
\<close>

theorem build_no_single_child:
  assumes "KDTree_build sel tree data = Inr (ok, tree')"
  shows "\<exists>root. rootNode tree' = Some root \<and> both_or_none root
           \<and> (2 \<le> length data \<longrightarrow> leftNode root \<noteq> None \<and> rightNode root \<noteq> None)"
proof -
  from KDTree_build_elim[OF assms] obtain root d where
    b: "build sel (indexed_copy data) 0 (length data) (- 1) = Inr (root, d)"
    and t: "tree' = tree\<lparr>rootNode := Some root\<rparr>"
    by blast
  have shape: "both_or_none root" by (rule build_both_or_none[OF b])
  have "leftNode root \<noteq> None \<and> rightNode root \<noteq> None" if big: "2 \<le> length data"
  proof -
    have b': "build sel ([] @ indexed_copy data @ []) (length ([] :: 'a IndexedPoint list))
                (length ([] :: 'a IndexedPoint list) + length (indexed_copy data)) (- 1) = Inr (root, d)"
      using b by simp
    from build_inner[OF b'] big show ?thesis by auto
  qed
  with shape t show ?thesis by simp
qed

theorem build_no_single_child_witness:
  "KDTree_build nth_element_sort KDTree_empty [[0], [1 :: int]] =
     Inr (True, \<lparr>rootNode = Some (KDNode 0 \<lparr>index = 1, point = [1]\<rparr>
                   (Some (KDNode 0 \<lparr>index = 0, point = [0]\<rparr> None None))
                   (Some (KDNode 0 \<lparr>index = 1, point = [1]\<rparr> None None)))\<rparr>)
   \<and> (\<exists>root. rootNode \<lparr>rootNode = Some (KDNode 0 \<lparr>index = 1, point = [1 :: int]\<rparr>
                   (Some (KDNode 0 \<lparr>index = 0, point = [0]\<rparr> None None))
                   (Some (KDNode 0 \<lparr>index = 1, point = [1]\<rparr> None None)))\<rparr> = Some root
          \<and> both_or_none root
          \<and> (2 \<le> length [[0], [1 :: int]] \<longrightarrow> leftNode root \<noteq> None \<and> rightNode root \<noteq> None))"
proof -
  have e: "KDTree_build nth_element_sort KDTree_empty [[0], [1 :: int]] =
     Inr (True, \<lparr>rootNode = Some (KDNode 0 \<lparr>index = 1, point = [1]\<rparr>
                   (Some (KDNode 0 \<lparr>index = 0, point = [0]\<rparr> None None))
                   (Some (KDNode 0 \<lparr>index = 1, point = [1]\<rparr> None None)))\<rparr>)"
    by code_simp
  from build_no_single_child[OF e] e show ?thesis by blast
qed

subsection \<open>An empty input\<close>

text \<open>
  C3. On an empty sequence the working copy is empty, so the root's build dereferences
  \<open>start\<close>, the end iterator of an empty vector: undefined behaviour, with no flag
  returned.
\<close>

theorem build_empty_undefined:
  "KDTree_build sel tree [] = Inl InvalidDeref"
  by (simp add: KDTree_build_def indexed_copy_def build.simps)

subsection \<open>The right child and the median\<close>

text \<open>
  C6, as the code has it. For a range of two elements or more the sub-range from the
  median position on is never empty, and the guard \<open>rightStart != rightEnd\<close> asks for no
  more: the right child is always built. When that sub-range is the median element
  alone (a range of two), the right child is a leaf that holds the node's own location.
\<close>

theorem build_right_child_when_nonempty:
  assumes "build sel data start fin pa = Inr (t, d)" "2 \<le> fin - start"
  shows "rightNode t \<noteq> None
         \<and> (fin - start = 2 \<longrightarrow> (\<exists>ax. rightNode t = Some (KDNode ax (location t) None None)))"
proof -
  have "\<not> fin - start < 2" using assms(2) by simp
  from build_children[OF assms(1) this] have "rightNode t \<noteq> None" by auto
  moreover have "\<exists>ax. rightNode t = Some (KDNode ax (location t) None None)" if "fin - start = 2"
  proof -
    from build_two[OF assms(1) that] obtain ax ax' l where
      "t = KDNode ax' (location t) (Some l) (Some (KDNode ax (location t) None None))" by blast
    then have "rightNode t = Some (KDNode ax (location t) None None)"
      by (metis KDNode.sel(4))
    then show ?thesis by blast
  qed
  ultimately show ?thesis by blast
qed

text \<open>
  A range of two points: the sub-range from the median position on is the median
  element alone, and the right child is built, holding that element again.
\<close>

theorem build_two_points_right_child:
  "build nth_element_sort (indexed_copy [[0], [1 :: int]]) 0 2 (- 1) =
     Inr (KDNode 0 \<lparr>index = 1, point = [1]\<rparr>
            (Some (KDNode 0 \<lparr>index = 0, point = [0]\<rparr> None None))
            (Some (KDNode 0 \<lparr>index = 1, point = [1]\<rparr> None None)),
          [\<lparr>index = 0, point = [0]\<rparr>, \<lparr>index = 1, point = [1]\<rparr>])"
  by code_simp

theorem build_right_child_when_nonempty_witness:
  "build nth_element_sort (indexed_copy [[7], [5 :: int]]) 0 2 (- 1) =
     Inr (KDNode 0 \<lparr>index = 0, point = [7]\<rparr>
            (Some (KDNode 0 \<lparr>index = 1, point = [5]\<rparr> None None))
            (Some (KDNode 0 \<lparr>index = 0, point = [7]\<rparr> None None)),
          [\<lparr>index = 1, point = [5]\<rparr>, \<lparr>index = 0, point = [7]\<rparr>])
   \<and> (2 :: nat) \<le> 2 - 0
   \<and> rightNode (KDNode 0 \<lparr>index = 0, point = [7 :: int]\<rparr>
            (Some (KDNode 0 \<lparr>index = 1, point = [5]\<rparr> None None))
            (Some (KDNode 0 \<lparr>index = 0, point = [7]\<rparr> None None))) \<noteq> None"
proof -
  have e: "build nth_element_sort (indexed_copy [[7], [5 :: int]]) 0 2 (- 1) =
     Inr (KDNode 0 \<lparr>index = 0, point = [7]\<rparr>
            (Some (KDNode 0 \<lparr>index = 1, point = [5]\<rparr> None None))
            (Some (KDNode 0 \<lparr>index = 0, point = [7]\<rparr> None None)),
          [\<lparr>index = 1, point = [5]\<rparr>, \<lparr>index = 0, point = [7]\<rparr>])"
    by code_simp
  have h: "(2 :: nat) \<le> 2 - 0" by simp
  from build_right_child_when_nonempty[OF e h] e h show ?thesis by blast
qed

text \<open>
  C7. With two elements or more in the range, the right recursion starts at the median
  position, so the element stored as the node's location, index included, is again the
  location of a node of the right subtree.
\<close>

theorem build_median_in_right_subtree:
  fixes sel :: "('a::linorder) nth_element"
  assumes "nth_element_spec sel"
    and "build sel data start fin pa = Inr (t, d)"
    and "2 \<le> fin - start" and "fin \<le> length data"
  shows "\<exists>r. rightNode t = Some r \<and> location t \<in> set (locations r)"
proof -
  define pre where "pre = take start data"
  define xs where "xs = take (fin - start) (drop start data)"
  define post where "post = drop fin data"
  have le: "start \<le> fin" using assms(3) by simp
  have lp: "length pre = start" using le assms(4) by (simp add: pre_def)
  have lx: "length xs = fin - start" using assms(4) by (simp add: xs_def)
  have "drop start data = xs @ post"
    using le by (simp add: xs_def post_def) (metis add_diff_inverse_nat append_take_drop_id drop_drop not_le add.commute)
  then have data: "data = pre @ xs @ post"
    by (metis append_take_drop_id pre_def)
  have ok: "build sel (pre @ xs @ post) (length pre) (length pre + length xs) pa = Inr (t, d)"
    using assms(2) data lp lx le by simp
  have big: "2 \<le> length xs" using lx assms(3) by simp
  define ax where "ax = (pa + 1) mod int (length (point (hd xs)))"
  define k where "k = length xs div 2"
  define ys where "ys = sel ax k xs"
  have k: "k < length xs" using big by (simp add: k_def)
  have ys_len: "length ys = length xs" using spec_length[OF assms(1) k] by (simp add: ys_def)
  from build_step[OF assms(1) ok big, folded ax_def k_def, folded ys_def]
  obtain l r where t: "t = KDNode ax (ys ! k) (Some l) (Some r)"
    and rs: "set (locations r) = set (drop k ys)"
    by blast
  have "ys ! k \<in> set (drop k ys)"
    using k ys_len by (metis Cons_nth_drop_Suc list.set_intros(1))
  then show ?thesis using t rs by simp
qed

theorem build_median_in_right_subtree_witness:
  "nth_element_spec (nth_element_sort :: int nth_element)
   \<and> build nth_element_sort (indexed_copy [[2], [0], [1 :: int]]) 0 3 (- 1) =
       Inr (KDNode 0 \<lparr>index = 2, point = [1]\<rparr>
              (Some (KDNode 0 \<lparr>index = 1, point = [0]\<rparr> None None))
              (Some (KDNode 0 \<lparr>index = 0, point = [2]\<rparr>
                (Some (KDNode 0 \<lparr>index = 2, point = [1]\<rparr> None None))
                (Some (KDNode 0 \<lparr>index = 0, point = [2]\<rparr> None None)))),
            [\<lparr>index = 1, point = [0]\<rparr>, \<lparr>index = 2, point = [1]\<rparr>, \<lparr>index = 0, point = [2]\<rparr>])
   \<and> (2 :: nat) \<le> 3 - 0 \<and> 3 \<le> length (indexed_copy [[2], [0], [1 :: int]])
   \<and> (\<exists>r. rightNode (KDNode 0 \<lparr>index = 2, point = [1 :: int]\<rparr>
              (Some (KDNode 0 \<lparr>index = 1, point = [0]\<rparr> None None))
              (Some (KDNode 0 \<lparr>index = 0, point = [2]\<rparr>
                (Some (KDNode 0 \<lparr>index = 2, point = [1]\<rparr> None None))
                (Some (KDNode 0 \<lparr>index = 0, point = [2]\<rparr> None None))))) = Some r
          \<and> \<lparr>index = 2, point = [1 :: int]\<rparr> \<in> set (locations r))"
proof -
  have s: "nth_element_spec (nth_element_sort :: int nth_element)"
    by (rule nth_element_sort_spec)
  have e: "build nth_element_sort (indexed_copy [[2], [0], [1 :: int]]) 0 3 (- 1) =
       Inr (KDNode 0 \<lparr>index = 2, point = [1]\<rparr>
              (Some (KDNode 0 \<lparr>index = 1, point = [0]\<rparr> None None))
              (Some (KDNode 0 \<lparr>index = 0, point = [2]\<rparr>
                (Some (KDNode 0 \<lparr>index = 2, point = [1]\<rparr> None None))
                (Some (KDNode 0 \<lparr>index = 0, point = [2]\<rparr> None None)))),
            [\<lparr>index = 1, point = [0]\<rparr>, \<lparr>index = 2, point = [1]\<rparr>, \<lparr>index = 0, point = [2]\<rparr>])"
    by code_simp
  have h1: "(2 :: nat) \<le> 3 - 0" by simp
  have h2: "3 \<le> length (indexed_copy [[2], [0], [1 :: int]])" by simp
  from build_median_in_right_subtree[OF s e h1 h2] s e h1 h2 show ?thesis by simp
qed

subsection \<open>Axes\<close>

text \<open>
  C8. Over points of one dimension \<open>D\<close>, every node's axis is (its parent's axis + 1)
  mod \<open>D\<close>, from the parent axis \<open>-1\<close> of the root: the root's axis is 0, and the axes
  follow the depth whatever the coordinates are.
\<close>

theorem build_axes_cycle:
  fixes sel :: "('a::linorder) nth_element"
  assumes "nth_element_spec sel"
    and "\<forall>p \<in> set data. length p = D"
    and "KDTree_build sel tree data = Inr (ok, tree')"
  shows "\<exists>root. rootNode tree' = Some root \<and> axes_cycle D (- 1) root \<and> axis root = 0"
proof -
  from KDTree_build_root[OF assms(3)] obtain root d where
    b: "build sel ([] @ indexed_copy data @ []) (length ([] :: 'a IndexedPoint list))
          (length ([] :: 'a IndexedPoint list) + length (indexed_copy data)) (- 1) = Inr (root, d)"
    and t: "tree' = tree\<lparr>rootNode := Some root\<rparr>" and ne: "indexed_copy data \<noteq> []"
    by blast
  from build_kd[OF assms(1) b ne indexed_copy_dim[OF assms(2)]]
  have c: "axes_cycle D (- 1) root" by blast
  then have "axis root = 0" by (cases root) simp
  with c t show ?thesis by simp
qed

theorem build_axes_cycle_witness:
  "nth_element_spec (nth_element_sort :: int nth_element)
   \<and> list_all (\<lambda>p. length p = 2) [[1, 5], [3, 2], [2, 9 :: int]]
   \<and> KDTree_build nth_element_sort KDTree_empty [[1, 5], [3, 2], [2, 9 :: int]] =
       Inr (True, \<lparr>rootNode = Some (KDNode 0 \<lparr>index = 2, point = [2, 9]\<rparr>
              (Some (KDNode 1 \<lparr>index = 0, point = [1, 5]\<rparr> None None))
              (Some (KDNode 1 \<lparr>index = 2, point = [2, 9]\<rparr>
                (Some (KDNode 0 \<lparr>index = 1, point = [3, 2]\<rparr> None None))
                (Some (KDNode 0 \<lparr>index = 2, point = [2, 9]\<rparr> None None)))))\<rparr>)
   \<and> axes_cycle 2 (- 1) (KDNode 0 \<lparr>index = 2, point = [2, 9 :: int]\<rparr>
              (Some (KDNode 1 \<lparr>index = 0, point = [1, 5]\<rparr> None None))
              (Some (KDNode 1 \<lparr>index = 2, point = [2, 9]\<rparr>
                (Some (KDNode 0 \<lparr>index = 1, point = [3, 2]\<rparr> None None))
                (Some (KDNode 0 \<lparr>index = 2, point = [2, 9]\<rparr> None None)))))"
proof -
  have s: "nth_element_spec (nth_element_sort :: int nth_element)"
    by (rule nth_element_sort_spec)
  have h: "\<forall>p \<in> set [[1, 5], [3, 2], [2, 9 :: int]]. length p = 2" by simp
  have e: "KDTree_build nth_element_sort KDTree_empty [[1, 5], [3, 2], [2, 9 :: int]] =
       Inr (True, \<lparr>rootNode = Some (KDNode 0 \<lparr>index = 2, point = [2, 9]\<rparr>
              (Some (KDNode 1 \<lparr>index = 0, point = [1, 5]\<rparr> None None))
              (Some (KDNode 1 \<lparr>index = 2, point = [2, 9]\<rparr>
                (Some (KDNode 0 \<lparr>index = 1, point = [3, 2]\<rparr> None None))
                (Some (KDNode 0 \<lparr>index = 2, point = [2, 9]\<rparr> None None)))))\<rparr>)"
    by code_simp
  have h': "list_all (\<lambda>p. length p = 2) [[1, 5], [3, 2], [2, 9 :: int]]" by simp
  from build_axes_cycle[OF s h e] obtain root where
    "rootNode \<lparr>rootNode = Some (KDNode 0 \<lparr>index = 2, point = [2, 9 :: int]\<rparr>
              (Some (KDNode 1 \<lparr>index = 0, point = [1, 5]\<rparr> None None))
              (Some (KDNode 1 \<lparr>index = 2, point = [2, 9]\<rparr>
                (Some (KDNode 0 \<lparr>index = 1, point = [3, 2]\<rparr> None None))
                (Some (KDNode 0 \<lparr>index = 2, point = [2, 9]\<rparr> None None)))))\<rparr> = Some root"
    "axes_cycle 2 (- 1) root"
    by blast
  then have "axes_cycle 2 (- 1) (KDNode 0 \<lparr>index = 2, point = [2, 9 :: int]\<rparr>
              (Some (KDNode 1 \<lparr>index = 0, point = [1, 5]\<rparr> None None))
              (Some (KDNode 1 \<lparr>index = 2, point = [2, 9]\<rparr>
                (Some (KDNode 0 \<lparr>index = 1, point = [3, 2]\<rparr> None None))
                (Some (KDNode 0 \<lparr>index = 2, point = [2, 9]\<rparr> None None)))))"
    by (simp del: axes_cycle.simps)
  with s h' e show ?thesis by blast
qed

subsection \<open>Points of varying lengths\<close>

text \<open>
  C4, as the code has it. \<open>KDTree::build\<close> compares no lengths. On points of varying
  lengths it has no failure to return: whenever it returns, the flag is \<open>true\<close>, and
  every location of the tree is a point of the input under its own index, with the
  coordinates it came with.
\<close>

theorem build_no_dimension_check:
  fixes sel :: "('a::linorder) nth_element"
  assumes "nth_element_spec sel" and "KDTree_build sel tree data = Inr (ok, tree')"
  shows "ok = True
         \<and> (\<exists>root. rootNode tree' = Some root
              \<and> (\<forall>loc \<in> set (locations root).
                    0 \<le> index loc \<and> index loc < int (length data)
                    \<and> point loc = data ! nat (index loc)))"
proof -
  from KDTree_build_locations[OF assms] obtain root where
    "rootNode tree' = Some root" "ok = True" "set (locations root) = set (indexed_copy data)"
    by blast
  then show ?thesis using indexed_copy_mem[of _ data] by auto
qed

text \<open>Two points of lengths 2 and 1: the build succeeds.\<close>

theorem build_mixed_lengths_succeeds:
  "KDTree_build nth_element_sort KDTree_empty [[1, 2], [3 :: int]] =
     Inr (True, \<lparr>rootNode = Some (KDNode 0 \<lparr>index = 1, point = [3]\<rparr>
            (Some (KDNode 1 \<lparr>index = 0, point = [1, 2]\<rparr> None None))
            (Some (KDNode 0 \<lparr>index = 1, point = [3]\<rparr> None None)))\<rparr>)"
  by code_simp

theorem build_no_dimension_check_witness:
  "nth_element_spec (nth_element_sort :: int nth_element)
   \<and> KDTree_build nth_element_sort KDTree_empty [[5, 6], [4 :: int]] =
       Inr (True, \<lparr>rootNode = Some (KDNode 0 \<lparr>index = 0, point = [5, 6]\<rparr>
              (Some (KDNode 0 \<lparr>index = 1, point = [4]\<rparr> None None))
              (Some (KDNode 1 \<lparr>index = 0, point = [5, 6]\<rparr> None None)))\<rparr>)
   \<and> list_all (\<lambda>loc. 0 \<le> index loc \<and> index loc < int (length [[5, 6], [4 :: int]])
                     \<and> point loc = [[5, 6], [4]] ! nat (index loc))
        (locations (KDNode 0 \<lparr>index = 0, point = [5, 6 :: int]\<rparr>
              (Some (KDNode 0 \<lparr>index = 1, point = [4]\<rparr> None None))
              (Some (KDNode 1 \<lparr>index = 0, point = [5, 6]\<rparr> None None))))"
proof -
  have s: "nth_element_spec (nth_element_sort :: int nth_element)"
    by (rule nth_element_sort_spec)
  have e: "KDTree_build nth_element_sort KDTree_empty [[5, 6], [4 :: int]] =
       Inr (True, \<lparr>rootNode = Some (KDNode 0 \<lparr>index = 0, point = [5, 6]\<rparr>
              (Some (KDNode 0 \<lparr>index = 1, point = [4]\<rparr> None None))
              (Some (KDNode 1 \<lparr>index = 0, point = [5, 6]\<rparr> None None)))\<rparr>)"
    by code_simp
  from build_no_dimension_check[OF s e] s e show ?thesis
    unfolding list_all_iff by (simp del: locations.simps)
qed

subsection \<open>The query against the brute-force scan\<close>



subsection \<open>A tree without a root\<close>

text \<open>
  C9. On a tree without a root the query returns \<open>IndexedPoint<T>()\<close>, whose index is
  \<open>-1\<close>: a returned value, not a fault, with the tree as it was.
\<close>

theorem nearestNeighbor_not_built:
  assumes "rootNode tree = None"
  shows "KDTree_nearestNeighbor ar tmax tree q = Inr (IndexedPoint_default, tree)
         \<and> index (IndexedPoint_default :: 'a IndexedPoint) = - 1"
  using assms by (simp add: KDTree_nearestNeighbor_def IndexedPoint_default_def)

theorem nearestNeighbor_not_built_witness:
  "rootNode (KDTree_empty :: int KDTree) = None
   \<and> KDTree_nearestNeighbor int32_arith 2147483647 KDTree_empty [21, 21]
       = Inr (\<lparr>index = - 1, point = []\<rparr>, KDTree_empty)"
proof -
  have h: "rootNode (KDTree_empty :: int KDTree) = None" by (simp add: KDTree_empty_def)
  from nearestNeighbor_not_built[OF h, of int32_arith 2147483647 "[21, 21]"] h
  show ?thesis by (simp add: IndexedPoint_default_def)
qed

text \<open>
  C5, as the code has it. The serializer writes a tree without a root as nothing at
  all, not as a line \<open>-1\<close>; the deserializer reads the end of the stream as \<open>-1\<close>, so the
  empty output is read back as a tree without a root.
\<close>

theorem serialize_empty_tree:
  assumes "rootNode tree = None"
  shows "KDTree_serialize showT tree = []
         \<and> KDTree_deserialize readT KDTree_empty (KDTree_serialize showT tree) = Some (KDTree_empty, [])"
proof -
  have "read_int [] = None" by (simp add: read_int_def read_integer_def)
  then have "intFromStream [] = (- 1, [])" by (simp add: intFromStream_def getline_def)
  then show ?thesis using assms by (simp add: KDTree_serialize_def KDTree_deserialize_def)
qed

text \<open>The output for the empty tree is not the line \<open>-1\<close>.\<close>

theorem serialize_empty_tree_no_marker:
  "KDTree_serialize show_int (KDTree_empty :: int KDTree) \<noteq> show_int (- 1) @ endl"
  by (simp add: KDTree_serialize_def KDTree_empty_def endl_def)

theorem serialize_empty_tree_witness:
  "rootNode (KDTree_empty :: int KDTree) = None
   \<and> KDTree_serialize show_int (KDTree_empty :: int KDTree) = []
   \<and> KDTree_deserialize read_integer (KDTree_empty :: int KDTree)
         (KDTree_serialize show_int (KDTree_empty :: int KDTree)) = Some (KDTree_empty, [])"
proof -
  have h: "rootNode (KDTree_empty :: int KDTree) = None" by (simp add: KDTree_empty_def)
  from serialize_empty_tree[OF h, of show_int read_integer] h show ?thesis by blast
qed

subsection \<open>The round trip\<close>

text \<open>
  C2. A tree that \<open>KDTree::build\<close> returned is serialized and read back into a fresh
  tree: the whole stream is consumed, and the tree read answers every query as the
  tree built does (the same returned point, so the same index and distance). The sizes
  are assumed to fit the \<open>int\<close> fields that carry indices and axes.
\<close>

theorem roundtrip_same_answers:
  fixes sel :: "('a::linordered_idom) nth_element"
  assumes "nth_element_spec sel" and "codec_ok showT readT"
    and "KDTree_build sel tree0 data = Inr (ok, tree)"
    and "int (length data) \<le> INT_MAX" and "\<forall>p \<in> set data. int (length p) \<le> INT_MAX"
  shows "\<exists>tree'. KDTree_deserialize readT KDTree_empty (KDTree_serialize showT tree) = Some (tree', [])
           \<and> KDTree_nearestNeighbor ar tmax tree' q = KDTree_nearestNeighbor ar tmax tree q"
proof -
  from KDTree_build_root[OF assms(3)] obtain root d where
    b: "build sel ([] @ indexed_copy data @ []) (length ([] :: 'a IndexedPoint list))
          (length ([] :: 'a IndexedPoint list) + length (indexed_copy data)) (- 1) = Inr (root, d)"
    and t: "tree = tree0\<lparr>rootNode := Some root\<rparr>" and ne: "indexed_copy data \<noteq> []"
    by blast
  have rng: "\<forall>p \<in> set (indexed_copy data). INT_MIN \<le> index p \<and> index p \<le> INT_MAX
                             \<and> int (length (point p)) \<le> INT_MAX"
  proof
    fix p assume p: "p \<in> set (indexed_copy data)"
    from indexed_copy_mem[OF p] have i: "0 \<le> index p" "index p < int (length data)"
      "point p = data ! nat (index p)" by simp_all
    have "nat (index p) < length data" using i(1,2) by linarith
    then have "point p \<in> set data" using i(3) by simp
    then have "int (length (point p)) \<le> INT_MAX" using assms(5) by blast
    moreover have "INT_MIN \<le> index p" using i(1) by (simp add: INT_MIN_def)
    moreover have "index p \<le> INT_MAX" using i(2) assms(4) by linarith
    ultimately show "INT_MIN \<le> index p \<and> index p \<le> INT_MAX \<and> int (length (point p)) \<le> INT_MAX"
      by blast
  qed
  have f: "int_fields_ok root" by (rule build_int_fields[OF assms(1) b ne rng])
  have r: "rootNode tree = Some root" using t by simp
  have "KDTree_deserialize readT KDTree_empty (KDTree_serialize showT tree)
          = Some (KDTree_empty\<lparr>rootNode := Some root\<rparr>, [])"
    by (rule KDTree_roundtrip[OF assms(2) r f])
  moreover have "KDTree_empty\<lparr>rootNode := Some root\<rparr> = tree"
    using t by (simp add: KDTree_empty_def)
  ultimately show ?thesis by simp
qed

theorem roundtrip_same_answers_witness:
  "nth_element_spec (nth_element_sort :: int nth_element)
   \<and> codec_ok show_int read_integer
   \<and> KDTree_build nth_element_sort KDTree_empty [[3], [1 :: int]] =
       Inr (True, \<lparr>rootNode = Some (KDNode 0 \<lparr>index = 0, point = [3]\<rparr>
              (Some (KDNode 0 \<lparr>index = 1, point = [1]\<rparr> None None))
              (Some (KDNode 0 \<lparr>index = 0, point = [3]\<rparr> None None)))\<rparr>)
   \<and> int (length [[3], [1 :: int]]) \<le> INT_MAX
   \<and> list_all (\<lambda>p. int (length p) \<le> INT_MAX) [[3], [1 :: int]]
   \<and> (\<exists>tree'. KDTree_deserialize read_integer KDTree_empty
                 (KDTree_serialize show_int \<lparr>rootNode = Some (KDNode 0 \<lparr>index = 0, point = [3 :: int]\<rparr>
                    (Some (KDNode 0 \<lparr>index = 1, point = [1]\<rparr> None None))
                    (Some (KDNode 0 \<lparr>index = 0, point = [3]\<rparr> None None)))\<rparr>) = Some (tree', [])
          \<and> KDTree_nearestNeighbor int32_arith 2147483647 tree' [2]
              = KDTree_nearestNeighbor int32_arith 2147483647 \<lparr>rootNode = Some (KDNode 0 \<lparr>index = 0, point = [3 :: int]\<rparr>
                    (Some (KDNode 0 \<lparr>index = 1, point = [1]\<rparr> None None))
                    (Some (KDNode 0 \<lparr>index = 0, point = [3]\<rparr> None None)))\<rparr> [2])"
proof -
  have s: "nth_element_spec (nth_element_sort :: int nth_element)"
    by (rule nth_element_sort_spec)
  have c: "codec_ok show_int read_integer" by (rule codec_ok_int)
  have e: "KDTree_build nth_element_sort KDTree_empty [[3], [1 :: int]] =
       Inr (True, \<lparr>rootNode = Some (KDNode 0 \<lparr>index = 0, point = [3]\<rparr>
              (Some (KDNode 0 \<lparr>index = 1, point = [1]\<rparr> None None))
              (Some (KDNode 0 \<lparr>index = 0, point = [3]\<rparr> None None)))\<rparr>)"
    by code_simp
  have h1: "int (length [[3], [1 :: int]]) \<le> INT_MAX" by (simp add: INT_MAX_def)
  have h2: "\<forall>p \<in> set [[3], [1 :: int]]. int (length p) \<le> INT_MAX" by (simp add: INT_MAX_def)
  have h2': "list_all (\<lambda>p. int (length p) \<le> INT_MAX) [[3], [1 :: int]]"
    by (simp add: INT_MAX_def)
  from roundtrip_same_answers[OF s c e h1 h2, of int32_arith 2147483647 "[2]"] s c e h1 h2'
  show ?thesis by blast
qed

end
